theory Spec2Isabelle
  imports Main "HOL-Library.Sublist"
begin

text \<open>
  The content script \<open>content.js\<close> of the Langara Swing Schedule Exporter reads the table
  of registered courses from a page and writes an iCalendar file. This theory holds its
  format decoders, column resolver, row parser, session aggregator and calendar
  generator as functions, and what the specification says about them as theorems.
\<close>

section \<open>Strings of the content script\<close>

text \<open>
  A JavaScript string is modelled as a \<^typ>\<open>string\<close>: one \<^typ>\<open>char\<close> per code unit,
  for the code units U+0000 to U+00FF. Among them \<open>trim\<close> strips TAB, LF, VT, FF, CR,
  SPACE and the no-break space U+00A0.
\<close>

definition CR :: char where
  "CR = CHR 0x0D"

definition LF :: char where
  "LF = CHR 0x0A"

definition CRLF :: string where
  "CRLF = [CR, LF]"

definition js_whitespace :: "char \<Rightarrow> bool" where
  "js_whitespace c = (c \<in> set [CHR 0x09, LF, CHR 0x0B, CHR 0x0C, CR, CHR 0x20, CHR 0xA0])"

definition trim :: "string \<Rightarrow> string" where
  "trim s = rev (dropWhile js_whitespace (rev (dropWhile js_whitespace s)))"

text \<open>
  \<open>toUpperCase\<close> on these code units: a..z and the letters U+00E0 to U+00FE (but the
  division sign U+00F7) go to their capitals, U+00DF (sharp s) goes to the two letters
  SS, every other code unit stays. The capitals of U+00B5 and U+00FF are U+039C and
  U+0178, which are not among the code units of this model: the model leaves the two as
  they are. No test of the script can tell, since it compares upper-cased text with
  ASCII text and with other upper-cased text only; the type of a session, which is
  printed upper-cased, would show U+039C or U+0178 where the model shows U+00B5 or
  U+00FF.
\<close>

definition toUpperChar :: "char \<Rightarrow> string" where
  "toUpperChar c =
     (if c = CHR 0xDF then ''SS''
      else (case map_of (zip (''abcdefghijklmnopqrstuvwxyz'' @
                            [CHR 0xE0, CHR 0xE1, CHR 0xE2, CHR 0xE3, CHR 0xE4, CHR 0xE5, CHR 0xE6,
                             CHR 0xE7, CHR 0xE8, CHR 0xE9, CHR 0xEA, CHR 0xEB, CHR 0xEC, CHR 0xED,
                             CHR 0xEE, CHR 0xEF, CHR 0xF0, CHR 0xF1, CHR 0xF2, CHR 0xF3, CHR 0xF4,
                             CHR 0xF5, CHR 0xF6, CHR 0xF8, CHR 0xF9, CHR 0xFA, CHR 0xFB, CHR 0xFC,
                             CHR 0xFD, CHR 0xFE])
                           (''ABCDEFGHIJKLMNOPQRSTUVWXYZ'' @
                            [CHR 0xC0, CHR 0xC1, CHR 0xC2, CHR 0xC3, CHR 0xC4, CHR 0xC5, CHR 0xC6,
                             CHR 0xC7, CHR 0xC8, CHR 0xC9, CHR 0xCA, CHR 0xCB, CHR 0xCC, CHR 0xCD,
                             CHR 0xCE, CHR 0xCF, CHR 0xD0, CHR 0xD1, CHR 0xD2, CHR 0xD3, CHR 0xD4,
                             CHR 0xD5, CHR 0xD6, CHR 0xD8, CHR 0xD9, CHR 0xDA, CHR 0xDB, CHR 0xDC,
                             CHR 0xDD, CHR 0xDE])) c of
              Some u \<Rightarrow> [u]
            | None \<Rightarrow> [c]))"

definition toUpperCase :: "string \<Rightarrow> string" where
  "toUpperCase s = concat (map toUpperChar s)"

text \<open>\<open>s.split(c)\<close> for a one-character separator: never empty, \<open>''.split(c)\<close> is \<open>['']\<close>.\<close>

fun split_on :: "char \<Rightarrow> string \<Rightarrow> string list" where
  "split_on c [] = [[]]"
| "split_on c (x # xs) =
     (if x = c then [] # split_on c xs
      else (case split_on c xs of
              [] \<Rightarrow> [[x]]
            | p # ps \<Rightarrow> (x # p) # ps))"

definition padStart :: "nat \<Rightarrow> char \<Rightarrow> string \<Rightarrow> string" where
  "padStart n c s = replicate (n - length s) c @ s"

text \<open>\<open>s.includes(pat)\<close>: \<open>pat\<close> occurs in \<open>s\<close> as a contiguous run.\<close>

fun str_includes :: "string \<Rightarrow> string \<Rightarrow> bool" where
  "str_includes [] pat = (pat = [])"
| "str_includes (c # cs) pat = (prefix pat (c # cs) \<or> str_includes cs pat)"

definition is_digit :: "char \<Rightarrow> bool" where
  "is_digit c = (c \<in> set ''0123456789'')"

definition is_alpha :: "char \<Rightarrow> bool" where
  "is_alpha c = (c \<in> set ''abcdefghijklmnopqrstuvwxyzABCDEFGHIJKLMNOPQRSTUVWXYZ'')"


text \<open>\<open>s.replace(/c/g, r)\<close> for a one-character pattern: every occurrence of \<open>c\<close> becomes \<open>r\<close>.\<close>

fun replace_all_char :: "char \<Rightarrow> string \<Rightarrow> string \<Rightarrow> string" where
  "replace_all_char c r [] = []"
| "replace_all_char c r (x # xs) = (if x = c then r @ replace_all_char c r xs else x # replace_all_char c r xs)"

text \<open>
  \<open>s.replace(pat, repl)\<close> for a string pattern: the first occurrence only, and the
  replacement text is expanded (\<open>$$\<close>, \<open>$&\<close>, \<open>$`\<close>, \<open>$'\<close>; a string pattern has no
  capture groups, so every other \<open>$\<close> stays as it is).
\<close>

fun index_of :: "string \<Rightarrow> string \<Rightarrow> nat option" where
  "index_of pat [] = (if pat = [] then Some 0 else None)"
| "index_of pat (c # cs) = (if prefix pat (c # cs) then Some 0 else map_option Suc (index_of pat cs))"

fun get_substitution :: "string \<Rightarrow> string \<Rightarrow> string \<Rightarrow> string \<Rightarrow> string" where
  "get_substitution matched pre post [] = []"
| "get_substitution matched pre post [c] = [c]"
| "get_substitution matched pre post (c # d # r) =
     (if c = CHR ''$'' \<and> d = CHR ''$'' then CHR ''$'' # get_substitution matched pre post r
      else if c = CHR ''$'' \<and> d = CHR ''&'' then matched @ get_substitution matched pre post r
      else if c = CHR ''$'' \<and> d = CHR 0x60 then pre @ get_substitution matched pre post r
      else if c = CHR ''$'' \<and> d = CHR 0x27 then post @ get_substitution matched pre post r
      else c # get_substitution matched pre post (d # r))"

definition str_replace :: "string \<Rightarrow> string \<Rightarrow> string \<Rightarrow> string" where
  "str_replace s pat repl =
     (case index_of pat s of
        None \<Rightarrow> s
      | Some i \<Rightarrow>
          (let pre = take i s; post = drop (i + length pat) s
           in pre @ get_substitution pat pre post repl @ post))"

section \<open>Numbers and dates of the runtime\<close>

text \<open>
  A Number is an \<^typ>\<open>int option\<close>, \<open>None\<close> being NaN. Every number the script computes is
  an integer far below \<open>2 ^ 53\<close> (years of at most four digits, two-digit months, days,
  hours and minutes), where the runtime's doubles are exact.
\<close>

definition digit_val :: "char \<Rightarrow> int" where
  "digit_val c =
     (case map_of (zip ''0123456789'' [0, 1, 2, 3, 4, 5, 6, 7, 8, 9]) c of
        Some v \<Rightarrow> v
      | None \<Rightarrow> 0)"

text \<open>\<open>parseInt(s, 10)\<close>: leading white space, an optional sign, the longest run of digits.\<close>

definition parseInt :: "string \<Rightarrow> int option" where
  "parseInt s =
     (let t = dropWhile js_whitespace s;
          neg = (case t of [] \<Rightarrow> False | c # _ \<Rightarrow> c = CHR ''-'');
          u = (case t of [] \<Rightarrow> [] | c # r \<Rightarrow> if c = CHR ''-'' \<or> c = CHR ''+'' then r else t);
          ds = takeWhile is_digit u
      in if ds = [] then None
         else Some ((if neg then - 1 else 1) * foldl (\<lambda>a c. 10 * a + digit_val c) 0 ds))"

text \<open>\<open>String(n)\<close> and the template \<open>${n}\<close> of an integral Number.\<close>

fun nat_digits :: "nat \<Rightarrow> string" where
  "nat_digits n =
     (if n < 10 then [''0123456789'' ! n]
      else nat_digits (n div 10) @ [''0123456789'' ! (n mod 10)])"

declare nat_digits.simps [simp del]

definition String_of_number :: "int option \<Rightarrow> string" where
  "String_of_number x =
     (case x of
        None \<Rightarrow> ''NaN''
      | Some n \<Rightarrow> if n < 0 then CHR ''-'' # nat_digits (nat (- n)) else nat_digits (nat n))"

text \<open>
  Time values and the calendar functions of ECMA-262 (Day, DayFromYear, YearFromTime,
  MonthFromTime, DateFromTime, MakeDay, MakeTime, MakeDate, TimeClip), in milliseconds
  since 1970-01-01T00:00Z.
\<close>

definition msPerDay :: int where
  "msPerDay = 86400000"

definition msPerHour :: int where
  "msPerHour = 3600000"

definition msPerMinute :: int where
  "msPerMinute = 60000"

definition Day :: "int \<Rightarrow> int" where
  "Day t = t div msPerDay"

definition DayFromYear :: "int \<Rightarrow> int" where
  "DayFromYear y = 365 * (y - 1970) + (y - 1969) div 4 - (y - 1901) div 100 + (y - 1601) div 400"

definition InLeapYear :: "int \<Rightarrow> bool" where
  "InLeapYear y =
     (if y mod 4 = 0 then (if y mod 100 = 0 then y mod 400 = 0 else True) else False)"

text \<open>The year of a day number: the \<open>y\<close> with \<open>DayFromYear y \<le> d < DayFromYear (y + 1)\<close>,
  looked for around the estimate \<open>1970 + 400 * d div 146097\<close>.\<close>

definition YearFromDay :: "int \<Rightarrow> int" where
  "YearFromDay d =
     (let y0 = 1970 + (400 * d) div 146097
      in (case find (\<lambda>y. DayFromYear y \<le> d \<and> d < DayFromYear (y + 1)) [y0 - 1, y0, y0 + 1] of
            Some y \<Rightarrow> y
          | None \<Rightarrow> y0))"

text \<open>The day within the year on which each month starts.\<close>

definition month_starts :: "bool \<Rightarrow> int list" where
  "month_starts leap =
     (let l = (if leap then 1 else 0)
      in [0, 31, 59 + l, 90 + l, 120 + l, 151 + l, 181 + l, 212 + l, 243 + l, 273 + l, 304 + l, 334 + l])"

definition YearFromTime :: "int \<Rightarrow> int" where
  "YearFromTime t = YearFromDay (Day t)"

definition DayWithinYear :: "int \<Rightarrow> int" where
  "DayWithinYear t = Day t - DayFromYear (YearFromTime t)"

definition MonthFromTime :: "int \<Rightarrow> int" where
  "MonthFromTime t =
     int (length (filter (\<lambda>s. s \<le> DayWithinYear t) (month_starts (InLeapYear (YearFromTime t))))) - 1"

definition DateFromTime :: "int \<Rightarrow> int" where
  "DateFromTime t =
     DayWithinYear t - month_starts (InLeapYear (YearFromTime t)) ! nat (MonthFromTime t) + 1"

definition HourFromTime :: "int \<Rightarrow> int" where
  "HourFromTime t = (t div msPerHour) mod 24"

definition MinFromTime :: "int \<Rightarrow> int" where
  "MinFromTime t = (t div msPerMinute) mod 60"

definition SecFromTime :: "int \<Rightarrow> int" where
  "SecFromTime t = (t div 1000) mod 60"

definition msFromTime :: "int \<Rightarrow> int" where
  "msFromTime t = t mod 1000"

definition MakeTime :: "int \<Rightarrow> int \<Rightarrow> int \<Rightarrow> int \<Rightarrow> int" where
  "MakeTime h m s milli = h * msPerHour + m * msPerMinute + s * 1000 + milli"

definition MakeDay :: "int \<Rightarrow> int \<Rightarrow> int \<Rightarrow> int" where
  "MakeDay year month date =
     (let ym = year + month div 12; mn = month mod 12
      in DayFromYear ym + month_starts (InLeapYear ym) ! nat mn + date - 1)"

definition MakeDate :: "int \<Rightarrow> int \<Rightarrow> int" where
  "MakeDate day time = day * msPerDay + time"

definition TimeClip :: "int \<Rightarrow> int option" where
  "TimeClip t = (if \<bar>t\<bar> > 8640000000000000 then None else Some t)"

text \<open>\<open>Date.UTC(year, month, day, hour, minute, 0)\<close>; a year in 0..99 means 1900 + year.\<close>

definition MakeFullYear :: "int \<Rightarrow> int" where
  "MakeFullYear y = (if 0 \<le> y \<and> y \<le> 99 then 1900 + y else y)"

definition Date_UTC :: "int option \<Rightarrow> int option \<Rightarrow> int option \<Rightarrow> int option \<Rightarrow> int option \<Rightarrow> int option" where
  "Date_UTC year month day hour minute =
     (case (year, month, day, hour, minute) of
        (Some y, Some m, Some d, Some h, Some mi) \<Rightarrow>
          TimeClip (MakeDate (MakeDay (MakeFullYear y) m d) (MakeTime h mi 0 0))
      | _ \<Rightarrow> None)"

text \<open>\<open>d.setUTCHours(d.getUTCHours() + 8)\<close> on the time value of \<open>d\<close>.\<close>

definition setUTCHours_plus8 :: "int option \<Rightarrow> int option" where
  "setUTCHours_plus8 tv =
     (case tv of
        None \<Rightarrow> None
      | Some t \<Rightarrow>
          TimeClip (MakeDate (Day t)
            (MakeTime (HourFromTime t + 8) (MinFromTime t) (SecFromTime t) (msFromTime t))))"

text \<open>
  \<open>new Date(s)\<close> followed by \<open>isNaN(date.getTime())\<close>, for the strings \<open>parseBannerDate\<close>
  builds. The extension runs in Chrome and Edge (README, Browser Compatibility). Their
  engine reads a string of the shape \<open>YYYY-MM-DD\<close> (four, two and two digits) as a date
  exactly when the month is 01..12 and the day is 01..31, whatever the month: a day past
  the end of the month is carried into the next month, so \<open>2024-02-30\<close> is the first of
  March and not an invalid date. For every other string the engine falls back to
  heuristics of its own; they are the parameter \<open>legacy\<close>.
\<close>

definition iso_date_only :: "string \<Rightarrow> bool" where
  "iso_date_only s =
     (case split_on (CHR ''-'') s of
        [y, m, d] \<Rightarrow>
          length y = 4 \<and> list_all is_digit y \<and> length m = 2 \<and> list_all is_digit m \<and>
          length d = 2 \<and> list_all is_digit d
      | _ \<Rightarrow> False)"

definition Date_valid :: "(string \<Rightarrow> bool) \<Rightarrow> string \<Rightarrow> bool" where
  "Date_valid legacy s =
     (if iso_date_only s
      then (let m = parseInt (take 2 (drop 5 s)); d = parseInt (take 2 (drop 8 s))
            in (case (m, d) of
                  (Some m, Some d) \<Rightarrow> 1 \<le> m \<and> m \<le> 12 \<and> 1 \<le> d \<and> d \<le> 31
                | _ \<Rightarrow> False))
      else legacy s)"

section \<open>Format decoders\<close>

definition MONTH_MAP :: "string \<rightharpoonup> string" where
  "MONTH_MAP = map_of
     [(''JAN'', ''01''), (''FEB'', ''02''), (''MAR'', ''03''), (''APR'', ''04''),
      (''MAY'', ''05''), (''JUN'', ''06''), (''JUL'', ''07''), (''AUG'', ''08''),
      (''SEP'', ''09''), (''OCT'', ''10''), (''NOV'', ''11''), (''DEC'', ''12'')]"

definition DAY_MAP :: "char \<rightharpoonup> string" where
  "DAY_MAP = map_of
     [(CHR ''M'', ''MO''), (CHR ''T'', ''TU''), (CHR ''W'', ''WE''), (CHR ''R'', ''TH''),
      (CHR ''F'', ''FR''), (CHR ''S'', ''SA''), (CHR ''U'', ''SU'')]"

text \<open>
  \<open>MONTH_MAP[monthAbbr]\<close> reads a plain object. The key is upper-cased first, and every
  property an object inherits has a lower-case letter in its name, so the lookup finds
  one of the twelve entries or nothing.
\<close>

definition parseBannerDate :: "(string \<Rightarrow> bool) \<Rightarrow> string \<Rightarrow> string option" where
  "parseBannerDate legacy dateStr =
     (if dateStr = [] then None
      else (case split_on (CHR ''-'') (trim dateStr) of
              [p0, p1, p2] \<Rightarrow>
                (let day = padStart 2 (CHR ''0'') p0;
                     monthAbbr = toUpperCase p1;
                     year = p2
                 in (case MONTH_MAP monthAbbr of
                       None \<Rightarrow> None
                     | Some month \<Rightarrow>
                         if month = [] then None
                         else if Date_valid legacy (year @ ''-'' @ month @ ''-'' @ day)
                         then Some (year @ month @ day)
                         else None))
            | _ \<Rightarrow> None))"

record time_data =
  td_start :: string
  td_end :: string

text \<open>The arrow function \<open>formatTime\<close> inside \<open>parseBannerTime\<close>.\<close>

definition formatTime :: "string \<Rightarrow> string" where
  "formatTime t =
     (let padded = padStart 4 (CHR ''0'') t;
          hours = take (length padded - 2) padded;
          minutes = drop (length padded - 2) padded
      in padStart 2 (CHR ''0'') hours @ '':'' @ minutes)"

definition parseBannerTime :: "string \<Rightarrow> time_data option" where
  "parseBannerTime timeStr =
     (if timeStr = [] then None
      else (case split_on (CHR ''-'') (trim timeStr) of
              [p0, p1] \<Rightarrow> Some \<lparr>td_start = formatTime (trim p0), td_end = formatTime (trim p1)\<rparr>
            | _ \<Rightarrow> None))"

definition positions :: "char list" where
  "positions = ''MTWRFSU''"

text \<open>The loop of \<open>parseBannerDays\<close> over \<open>positions\<close>, pushing onto \<open>days\<close>.\<close>

fun days_loop :: "string \<Rightarrow> char list \<Rightarrow> string list \<Rightarrow> string list" where
  "days_loop trimmed [] days = days"
| "days_loop trimmed (p # ps) days =
     days_loop trimmed ps
       (if str_includes trimmed [p]
        then (case DAY_MAP p of
                None \<Rightarrow> days
              | Some icsDay \<Rightarrow> (if icsDay = [] then days else days @ [icsDay]))
        else days)"

definition parseBannerDays :: "string \<Rightarrow> string list" where
  "parseBannerDays daysStr =
     (if daysStr = [] then []
      else days_loop (toUpperCase (trim daysStr)) positions [])"

text \<open>A weekday mask in the sense of the specification: seven characters over M,T,W,R,F,S,U and -.\<close>

definition is_day_mask :: "string \<Rightarrow> bool" where
  "is_day_mask s = (length s = 7 \<and> list_all (\<lambda>c. c \<in> set ''MTWRFSU-'') s)"

definition weekday_codes :: "string list" where
  "weekday_codes = [''MO'', ''TU'', ''WE'', ''TH'', ''FR'', ''SA'', ''SU'']"

section \<open>Tables\<close>

text \<open>
  The table handed to the script: its \<open>tr\<close> rows in document order, each row the list of
  its cells, a cell being a header cell (\<open>th\<close>) or a data cell (\<open>td\<close>) with its
  \<open>textContent\<close>.
\<close>

datatype cell = TH string | TD string

type_synonym row = "cell list"

type_synonym table = "row list"

text \<open>\<open>row.querySelectorAll('th')\<close> and \<open>row.querySelectorAll('td')\<close>, as the texts of the cells.\<close>

fun ths :: "row \<Rightarrow> string list" where
  "ths [] = []"
| "ths (TH t # cs) = t # ths cs"
| "ths (TD t # cs) = ths cs"

fun tds :: "row \<Rightarrow> string list" where
  "tds [] = []"
| "tds (TH t # cs) = tds cs"
| "tds (TD t # cs) = t # tds cs"

text \<open>\<open>row.querySelector('th')\<close> as a truth value.\<close>

definition has_th :: "row \<Rightarrow> bool" where
  "has_th r = (ths r \<noteq> [])"

section \<open>Column resolver\<close>

text \<open>The inner loop of \<open>getColumnIndex\<close> over the header cells of one row, from index \<open>i\<close>.\<close>

fun find_header :: "string \<Rightarrow> string list \<Rightarrow> nat \<Rightarrow> nat option" where
  "find_header headerTextUpper [] i = None"
| "find_header headerTextUpper (h # hs) i =
     (if str_includes (toUpperCase (trim h)) headerTextUpper then Some i
      else find_header headerTextUpper hs (Suc i))"

text \<open>The second loop of \<open>getColumnIndex\<close>, over all rows from the top.\<close>

fun header_rows_loop :: "string \<Rightarrow> table \<Rightarrow> int" where
  "header_rows_loop headerTextUpper [] = - 1"
| "header_rows_loop headerTextUpper (r # rs) =
     (if ths r = [] then - 1
      else (case find_header headerTextUpper (ths r) 0 of
              Some i \<Rightarrow> int i
            | None \<Rightarrow> header_rows_loop headerTextUpper rs))"

definition getColumnIndex :: "table \<Rightarrow> string \<Rightarrow> int" where
  "getColumnIndex t headerText =
     (let headerTextUpper = toUpperCase headerText;
          firstHeaderRow = find has_th t;
          inFirst = (case firstHeaderRow of
                       None \<Rightarrow> None
                     | Some r \<Rightarrow> find_header headerTextUpper (ths r) 0)
      in (case inFirst of
            Some i \<Rightarrow> int i
          | None \<Rightarrow> header_rows_loop headerTextUpper t))"

text \<open>
  The resolution order in the words of the specification: a header cell matches a field
  name when its trimmed text contains the name, case ignored; the first row with header cells is
  looked at first, then the header rows from the top down to the first row without
  header cells.
\<close>

definition header_matches :: "string \<Rightarrow> string \<Rightarrow> bool" where
  "header_matches field h = str_includes (toUpperCase (trim h)) (toUpperCase field)"

definition first_match :: "string \<Rightarrow> row \<Rightarrow> nat option" where
  "first_match field r =
     (case filter (\<lambda>i. header_matches field (ths r ! i)) [0..<length (ths r)] of
        [] \<Rightarrow> None
      | i # _ \<Rightarrow> Some i)"

definition resolve_column :: "table \<Rightarrow> string \<Rightarrow> int" where
  "resolve_column t field =
     (case (case find has_th t of None \<Rightarrow> None | Some r \<Rightarrow> first_match field r) of
        Some i \<Rightarrow> int i
      | None \<Rightarrow>
          (case List.map_filter (first_match field) (takeWhile has_th t) of
             [] \<Rightarrow> - 1
           | i # _ \<Rightarrow> int i))"

text \<open>The header cells the resolver looks at: those of the first row with header cells and
  those of the rows before the first row without header cells.\<close>

definition checked_headers :: "table \<Rightarrow> string list" where
  "checked_headers t =
     (case find has_th t of None \<Rightarrow> [] | Some r \<Rightarrow> ths r) @ concat (map ths (takeWhile has_th t))"

section \<open>Row parser\<close>

record course_info =
  ci_subject :: string
  ci_course :: string
  ci_section :: string
  ci_title :: string

record course_data =
  cd_subject :: string
  cd_course :: string
  cd_section :: string
  cd_title :: string
  cd_type :: string
  cd_days :: string
  cd_time :: string
  cd_start :: string
  cd_end :: string
  cd_room :: string

text \<open>The arrow function \<open>getCellText\<close> of \<open>parseTableRow\<close>, over the texts of the row's data cells.\<close>

definition getCellText :: "string list \<Rightarrow> int \<Rightarrow> int \<Rightarrow> string" where
  "getCellText cells idx fallbackIdx =
     (if 0 \<le> idx \<and> idx < int (length cells) then trim (cells ! nat idx)
      else if 0 \<le> fallbackIdx \<and> fallbackIdx < int (length cells) then trim (cells ! nat fallbackIdx)
      else [])"

text \<open>The three patterns: \<open>/^\d{1,2}-[A-Z]{3}-\d{4}$/i\<close>, \<open>/^\d{3,4}-\d{3,4}$/\<close> and
  \<open>/^[-MTWRFSUmtwfrsu]{7}$/\<close>. Digits and letters are not hyphens, so a string matches the
  first exactly when its hyphens cut it into a day, a month and a year of the right
  form, and the second when they cut it into two sides.\<close>

definition date_pattern :: "string \<Rightarrow> bool" where
  "date_pattern s =
     (case split_on (CHR ''-'') s of
        [d, m, y] \<Rightarrow>
          (length d = 1 \<or> length d = 2) \<and> list_all is_digit d \<and>
          length m = 3 \<and> list_all is_alpha m \<and>
          length y = 4 \<and> list_all is_digit y
      | _ \<Rightarrow> False)"

definition time_pattern :: "string \<Rightarrow> bool" where
  "time_pattern s =
     (case split_on (CHR ''-'') s of
        [a, b] \<Rightarrow>
          (length a = 3 \<or> length a = 4) \<and> list_all is_digit a \<and>
          (length b = 3 \<or> length b = 4) \<and> list_all is_digit b
      | _ \<Rightarrow> False)"

definition days_pattern :: "string \<Rightarrow> bool" where
  "days_pattern s = (length s = 7 \<and> list_all (\<lambda>c. c \<in> set ''-MTWRFSUmtwfrsu'') s)"

text \<open>The search loops of \<open>parseTableRow\<close>; each stops at the first cell that matches.\<close>

definition find_type :: "string list \<Rightarrow> string" where
  "find_type cells =
     (case find (\<lambda>c. toUpperCase (trim c) = ''LECTURE'' \<or> toUpperCase (trim c) = ''LAB'' \<or>
                      toUpperCase (trim c) = ''EXAM'') cells of
        None \<Rightarrow> []
      | Some c \<Rightarrow> trim c)"

fun find_dates :: "string list \<Rightarrow> string \<times> string" where
  "find_dates [] = ([], [])"
| "find_dates (c # cs) =
     (if date_pattern (trim c)
      then (trim c, (case cs of
                       [] \<Rightarrow> []
                     | n # _ \<Rightarrow> if date_pattern (trim n) then trim n else []))
      else find_dates cs)"

definition find_time :: "string list \<Rightarrow> string" where
  "find_time cells = (case find (\<lambda>c. time_pattern (trim c)) cells of None \<Rightarrow> [] | Some c \<Rightarrow> trim c)"

definition find_days :: "string list \<Rightarrow> string" where
  "find_days cells = (case find (\<lambda>c. days_pattern (trim c)) cells of None \<Rightarrow> [] | Some c \<Rightarrow> trim c)"

text \<open>The values of \<open>type\<close>, \<open>start\<close>, \<open>end\<close>, \<open>time\<close> and \<open>days\<close> after the pattern search and
  the fall-back to the column index.\<close>

definition row_type :: "table \<Rightarrow> string list \<Rightarrow> string" where
  "row_type t cells =
     (if find_type cells = [] then getCellText cells (getColumnIndex t ''Type'') 9
      else find_type cells)"

definition row_start :: "table \<Rightarrow> string list \<Rightarrow> string" where
  "row_start t cells =
     (if fst (find_dates cells) = [] then getCellText cells (getColumnIndex t ''Start'') 7
      else fst (find_dates cells))"

definition row_end :: "table \<Rightarrow> string list \<Rightarrow> string" where
  "row_end t cells =
     (if fst (find_dates cells) = [] then getCellText cells (getColumnIndex t ''End'') 8
      else snd (find_dates cells))"

definition row_time :: "table \<Rightarrow> string list \<Rightarrow> string" where
  "row_time t cells =
     (if find_time cells = [] then getCellText cells (getColumnIndex t ''Time'') 11
      else find_time cells)"

definition row_days :: "table \<Rightarrow> string list \<Rightarrow> string" where
  "row_days t cells =
     (if find_days cells = [] then getCellText cells (getColumnIndex t ''Days'') 10
      else find_days cells)"

definition parseTableRow :: "row \<Rightarrow> table \<Rightarrow> course_info \<Rightarrow> course_data option" where
  "parseTableRow r t currentCourseInfo =
     (let cells = tds r
      in if length cells < 3 then None
         else
           (let type = row_type t cells;
                start = row_start t cells;
                end = row_end t cells;
                time = row_time t cells;
                days = row_days t cells;
                subj = getCellText cells (getColumnIndex t ''Subj'') 1;
                crse = getCellText cells (getColumnIndex t ''Crse'') 2;
                sec = getCellText cells (getColumnIndex t ''Sec'') 3;
                title = getCellText cells (getColumnIndex t ''Title'') 6;
                room = getCellText cells (getColumnIndex t ''Room'') 12;
                finalSubj = (if subj = [] then ci_subject currentCourseInfo else subj);
                finalCrse = (if crse = [] then ci_course currentCourseInfo else crse);
                finalSec = (if sec = [] then ci_section currentCourseInfo else sec);
                finalTitle = (if title = [] then ci_title currentCourseInfo else title)
            in if type = [] \<or> trim type = [] then None
               else if start = [] \<and> time = [] then None
               else
                 (let normalizedType = trim (toUpperCase type);
                      courseIdentifier =
                        (if finalSubj \<noteq> [] \<and> finalCrse \<noteq> [] then trim (finalSubj @ '' '' @ finalCrse)
                         else if finalSubj \<noteq> [] then finalSubj
                         else ''Course'');
                      sectionPart = (if finalSec = [] then [] else '' '' @ finalSec);
                      courseCode = trim (courseIdentifier @ sectionPart)
                  in Some \<lparr>cd_subject = finalSubj, cd_course = finalCrse, cd_section = finalSec,
                           cd_title = (if finalTitle = [] then courseCode else finalTitle),
                           cd_type = normalizedType, cd_days = days, cd_time = time,
                           cd_start = start, cd_end = end, cd_room = room\<rparr>)))"

section \<open>Calendar generator\<close>

datatype error =
    TypeError
  | TableNotFound
  | NoCourseData nat nat nat nat

text \<open>\<open>formatICSDateTime\<close>: \<open>[hours, minutes] = timeStr.split(':')\<close> leaves \<open>minutes\<close> undefined
  when there is no colon, and \<open>minutes.padStart\<close> then throws a TypeError.\<close>

definition formatICSDateTime :: "string \<Rightarrow> string \<Rightarrow> error + string" where
  "formatICSDateTime dateStr timeStr =
     (if dateStr = [] \<or> timeStr = [] then Inr []
      else (case split_on (CHR '':'') timeStr of
              hours # minutes # _ \<Rightarrow>
                Inr (dateStr @ ''T'' @ padStart 2 (CHR ''0'') hours @ padStart 2 (CHR ''0'') minutes @ ''00'')
            | _ \<Rightarrow> Inl TypeError))"

text \<open>\<open>formatICSDateTimeUTC\<close>: here an undefined \<open>minutes\<close> only makes \<open>parseInt\<close> return NaN.\<close>

definition formatICSDateTimeUTC :: "string \<Rightarrow> string \<Rightarrow> string" where
  "formatICSDateTimeUTC dateStr timeStr =
     (if dateStr = [] \<or> timeStr = [] then []
      else
        (let parts = split_on (CHR '':'') timeStr;
             hour = (case parts of [] \<Rightarrow> None | hours # _ \<Rightarrow> parseInt hours);
             minute = (case parts of hours # minutes # _ \<Rightarrow> parseInt minutes | _ \<Rightarrow> None);
             year = parseInt (take 4 dateStr);
             month = map_option (\<lambda>m. m - 1) (parseInt (take 2 (drop 4 dateStr)));
             day = parseInt (take 2 (drop 6 dateStr));
             pstDate = setUTCHours_plus8 (Date_UTC year month day hour minute);
             utcYear = String_of_number (map_option YearFromTime pstDate);
             utcMonth = padStart 2 (CHR ''0'') (String_of_number (map_option (\<lambda>t. MonthFromTime t + 1) pstDate));
             utcDay = padStart 2 (CHR ''0'') (String_of_number (map_option DateFromTime pstDate));
             utcHours = padStart 2 (CHR ''0'') (String_of_number (map_option HourFromTime pstDate));
             utcMinutes = padStart 2 (CHR ''0'') (String_of_number (map_option MinFromTime pstDate))
         in utcYear @ utcMonth @ utcDay @ ''T'' @ utcHours @ utcMinutes @ ''00Z''))"

definition escapeICSText :: "string \<Rightarrow> string" where
  "escapeICSText text =
     (if text = [] then []
      else replace_all_char LF [CHR 0x5C, CHR ''n'']
             (replace_all_char (CHR '','') [CHR 0x5C, CHR '','']
               (replace_all_char (CHR '';'') [CHR 0x5C, CHR '';'']
                 (replace_all_char (CHR 0x5C) [CHR 0x5C, CHR 0x5C] text))))"

text \<open>An inverse of the escaping: a backslash and the character after it are read together.\<close>

fun unescapeICSText :: "string \<Rightarrow> string" where
  "unescapeICSText [] = []"
| "unescapeICSText [c] = [c]"
| "unescapeICSText (c # d # r) =
     (if c = CHR 0x5C then (if d = CHR ''n'' then LF else d) # unescapeICSText r
      else c # unescapeICSText (d # r))"

text \<open>The pieces of \<open>createEvent\<close>: the course code, the summary, the description, the location.\<close>

definition event_courseCode :: "course_data \<Rightarrow> string" where
  "event_courseCode c =
     (let sectionPart = (if cd_section c \<noteq> [] then '' '' @ cd_section c else [])
      in if cd_subject c \<noteq> [] \<and> cd_course c \<noteq> [] then trim (cd_subject c @ '' '' @ cd_course c) @ sectionPart
         else if cd_subject c \<noteq> [] then cd_subject c @ sectionPart
         else if cd_course c \<noteq> [] then cd_course c @ sectionPart
         else if cd_title c \<noteq> [] then cd_title c
         else ''Course'')"

definition event_summary :: "course_data \<Rightarrow> string" where
  "event_summary c =
     (if cd_type c = ''EXAM'' then ''FINAL EXAM - '' @ event_courseCode c
      else event_courseCode c @ '' '' @ cd_type c)"

definition event_description :: "course_data \<Rightarrow> string" where
  "event_description c = (if cd_title c \<noteq> [] then cd_title c else event_courseCode c)"

definition event_location :: "course_data \<Rightarrow> string" where
  "event_location c =
     (if cd_room c \<noteq> [] then ''Langara College, Room '' @ cd_room c else ''Langara College'')"

text \<open>The lines of \<open>createEvent\<close> between \<open>DTEND\<close> and \<open>SUMMARY\<close>: the recurrence rule of a
  session that is not an exam. \<open>icsDays.join(',')\<close> puts commas between the codes.\<close>

fun join_comma :: "string list \<Rightarrow> string" where
  "join_comma [] = []"
| "join_comma [x] = x"
| "join_comma (x # y # r) = x @ '','' @ join_comma (y # r)"

definition event_rrule :: "course_data \<Rightarrow> string option \<Rightarrow> string" where
  "event_rrule c endDate =
     (let icsDays = parseBannerDays (cd_days c)
      in (case endDate of
            None \<Rightarrow> []
          | Some e \<Rightarrow>
              if 0 < length icsDays \<and> e \<noteq> []
              then ''RRULE:FREQ=WEEKLY;BYDAY='' @ join_comma icsDays @ '';UNTIL='' @
                   formatICSDateTimeUTC e ''23:59'' @ CRLF
              else []))"

definition event_tail :: "course_data \<Rightarrow> string" where
  "event_tail c =
     ''SUMMARY:'' @ escapeICSText (event_summary c) @ CRLF @
     ''DESCRIPTION:'' @ escapeICSText (event_description c) @ CRLF @
     ''LOCATION:'' @ escapeICSText (event_location c) @ CRLF @
     ''END:VEVENT'' @ CRLF"

definition createEvent :: "(string \<Rightarrow> bool) \<Rightarrow> course_data \<Rightarrow> error + string" where
  "createEvent legacy c =
     (let startDate = parseBannerDate legacy (cd_start c);
          endDate = parseBannerDate legacy (cd_end c);
          timeData = parseBannerTime (cd_time c)
      in (case (startDate, timeData) of
            (Some sd, Some td) \<Rightarrow>
              if sd = [] then Inr []
              else
              (case formatICSDateTime sd (td_start td) of
                 Inl e \<Rightarrow> Inl e
               | Inr dtStart \<Rightarrow>
                   (case formatICSDateTime sd (td_end td) of
                      Inl e \<Rightarrow> Inl e
                    | Inr dtEnd \<Rightarrow>
                        (let icsEvent =
                               ''BEGIN:VEVENT'' @ CRLF @
                               ''DTSTART;TZID=America/Los_Angeles:'' @ dtStart @ CRLF @
                               ''DTEND;TZID=America/Los_Angeles:'' @ dtEnd @ CRLF
                         in if cd_type c \<noteq> ''EXAM''
                            then Inr (icsEvent @ event_rrule c endDate @ event_tail c)
                            else (case endDate of
                                    None \<Rightarrow> Inr (icsEvent @ event_tail c)
                                  | Some ed \<Rightarrow>
                                      if ed \<noteq> [] \<and> ed \<noteq> sd
                                      then (case formatICSDateTime ed (td_end td) of
                                              Inl e \<Rightarrow> Inl e
                                            | Inr examEnd \<Rightarrow>
                                                Inr (str_replace icsEvent
                                                       (''DTEND;TZID=America/Los_Angeles:'' @ dtEnd)
                                                       (''DTEND;TZID=America/Los_Angeles:'' @ examEnd)
                                                     @ event_tail c))
                                      else Inr (icsEvent @ event_tail c)))))
          | _ \<Rightarrow> Inr []))"

definition ics_header :: string where
  "ics_header =
     ''BEGIN:VCALENDAR'' @ CRLF @
     ''VERSION:2.0'' @ CRLF @
     ''PRODID:-//Langara Swing Schedule Exporter//EN'' @ CRLF @
     ''CALSCALE:GREGORIAN'' @ CRLF @
     ''X-WR-TIMEZONE:America/Los_Angeles'' @ CRLF"

definition ics_footer :: string where
  "ics_footer = ''END:VCALENDAR'' @ CRLF"

text \<open>The loop of \<open>generateICS\<close>: an exception of \<open>createEvent\<close> would end it.\<close>

fun events_loop :: "(string \<Rightarrow> bool) \<Rightarrow> course_data list \<Rightarrow> string \<Rightarrow> error + string" where
  "events_loop legacy [] ics = Inr ics"
| "events_loop legacy (course # courses) ics =
     (case createEvent legacy course of
        Inl e \<Rightarrow> Inl e
      | Inr event \<Rightarrow> events_loop legacy courses (if event \<noteq> [] then ics @ event else ics))"

definition generateICS :: "(string \<Rightarrow> bool) \<Rightarrow> course_data list \<Rightarrow> error + string" where
  "generateICS legacy courses =
     (case events_loop legacy courses ics_header of
        Inl e \<Rightarrow> Inl e
      | Inr ics \<Rightarrow> Inr (ics @ ics_footer))"

text \<open>A session decodes when neither its start date nor its time range decodes to null.\<close>

definition decodes :: "(string \<Rightarrow> bool) \<Rightarrow> course_data \<Rightarrow> bool" where
  "decodes legacy c =
     (parseBannerDate legacy (cd_start c) \<noteq> None \<and> parseBannerTime (cd_time c) \<noteq> None)"

section \<open>Session aggregator\<close>

text \<open>
  The variables of the loop of \<open>scrapeCourseData\<close>. \<open>parserCalls\<close> is not a variable of the
  script: it lists the rows handed to \<open>parseTableRow\<close>, in order, so that what reaches the
  row parser can be stated.
\<close>

record scrape_state =
  courses :: "course_data list"
  skippedRows :: nat
  invalidRows :: nat
  currentCourseInfo :: course_info
  parserCalls :: "row list"

definition headerRowCount :: "table \<Rightarrow> nat" where
  "headerRowCount t = length (takeWhile has_th t)"

definition scrape_init :: scrape_state where
  "scrape_init =
     \<lparr>courses = [], skippedRows = 0, invalidRows = 0,
      currentCourseInfo = \<lparr>ci_subject = [], ci_course = [], ci_section = [], ci_title = []\<rparr>,
      parserCalls = []\<rparr>"

text \<open>One turn of the loop, on the row \<open>r\<close>.\<close>

definition scrape_row :: "table \<Rightarrow> scrape_state \<Rightarrow> row \<Rightarrow> scrape_state" where
  "scrape_row t st r =
     (let cells = tds r
      in if length cells < 3 then st\<lparr>skippedRows := skippedRows st + 1\<rparr>
         else
           (let subjText = (if 1 < length cells then trim (cells ! 1) else []);
                crseText = (if 2 < length cells then trim (cells ! 2) else []);
                secText = (if 3 < length cells then trim (cells ! 3) else []);
                titleText = (if 6 < length cells then trim (cells ! 6) else []);
                info1 = (if subjText \<noteq> [] \<and> crseText \<noteq> []
                         then \<lparr>ci_subject = subjText, ci_course = crseText,
                               ci_section = secText, ci_title = titleText\<rparr>
                         else currentCourseInfo st);
                st1 = st\<lparr>currentCourseInfo := info1, parserCalls := parserCalls st @ [r]\<rparr>
            in (case parseTableRow r t info1 of
                  Some courseData \<Rightarrow>
                    st1\<lparr>courses := courses st1 @ [courseData],
                        currentCourseInfo :=
                          (if cd_subject courseData \<noteq> [] \<and> cd_course courseData \<noteq> []
                           then \<lparr>ci_subject = cd_subject courseData, ci_course = cd_course courseData,
                                 ci_section = cd_section courseData, ci_title = cd_title courseData\<rparr>
                           else info1)\<rparr>
                | None \<Rightarrow> st1\<lparr>invalidRows := invalidRows st1 + 1\<rparr>)))"

definition scrape_loop :: "table \<Rightarrow> scrape_state" where
  "scrape_loop t = foldl (scrape_row t) scrape_init (drop (headerRowCount t) t)"

text \<open>\<open>scrapeCourseData\<close>, on the table \<open>findDataTable\<close> returned, if any.\<close>

definition scrapeCourseData :: "table option \<Rightarrow> error + course_data list" where
  "scrapeCourseData found =
     (case found of
        None \<Rightarrow> Inl TableNotFound
      | Some t \<Rightarrow>
          (let st = scrape_loop t
           in if courses st = []
              then Inl (NoCourseData (length t) (headerRowCount t) (skippedRows st) (invalidRows st))
              else Inr (courses st)))"

section \<open>Reading a calendar text\<close>

text \<open>The lines of a calendar text, cut at every CR LF, and the number of lines that open
  an event block.\<close>

fun lines_crlf :: "string \<Rightarrow> string list" where
  "lines_crlf [] = [[]]"
| "lines_crlf [c] = [[c]]"
| "lines_crlf (c # d # r) =
     (if c = CR \<and> d = LF then [] # lines_crlf r
      else (case lines_crlf (d # r) of
              [] \<Rightarrow> [[c]]
            | p # ps \<Rightarrow> (c # p) # ps))"

definition count_vevents :: "string \<Rightarrow> nat" where
  "count_vevents ics = length (filter (\<lambda>l. l = ''BEGIN:VEVENT'') (lines_crlf ics))"

section \<open>The days decoder\<close>

lemma includes_single: "str_includes s [c] = (c \<in> set s)"
  by (induction s) auto

lemma days_loop_concat:
  "days_loop t ps acc =
     acc @ concat (map (\<lambda>p. if p \<in> set t
                               then (case DAY_MAP p of
                                       None \<Rightarrow> []
                                     | Some d \<Rightarrow> if d = [] then [] else [d])
                               else []) ps)"
  by (induction ps arbitrary: acc) (auto simp: includes_single split: option.splits)

lemma days_loop_positions:
  "days_loop t positions [] =
     (if CHR ''M'' \<in> set t then [''MO''] else []) @
     (if CHR ''T'' \<in> set t then [''TU''] else []) @
     (if CHR ''W'' \<in> set t then [''WE''] else []) @
     (if CHR ''R'' \<in> set t then [''TH''] else []) @
     (if CHR ''F'' \<in> set t then [''FR''] else []) @
     (if CHR ''S'' \<in> set t then [''SA''] else []) @
     (if CHR ''U'' \<in> set t then [''SU''] else [])"
  by (simp add: days_loop_concat positions_def DAY_MAP_def)

lemma subseq_opt_Cons: "subseq xs ys \<Longrightarrow> subseq ((if b then [y] else []) @ xs) (y # ys)"
  by (cases b) (simp_all add: list_emb_Cons)

lemma subseq_opt_last: "subseq (if b then [y] else []) [y]"
  by simp

lemma days_loop_subseq: "subseq (days_loop t positions []) weekday_codes"
  unfolding days_loop_positions weekday_codes_def
  by (intro subseq_opt_Cons subseq_opt_last)

lemma distinct_weekday_codes: "distinct weekday_codes"
  by (simp add: weekday_codes_def)

text \<open>
  C9: for every input string, a mask or not, the output of \<open>parseBannerDays\<close> is a
  subsequence of MO, TU, WE, TH, FR, SA, SU without duplicates: each code at most once,
  Monday first, wherever the letters stand in the input.
\<close>

theorem parseBannerDays_subseq:
  "subseq (parseBannerDays s) weekday_codes \<and> distinct (parseBannerDays s)"
proof -
  have sub: "subseq (parseBannerDays s) weekday_codes"
    by (simp add: parseBannerDays_def days_loop_subseq)
  from sub have "parseBannerDays s \<in> set (subseqs weekday_codes)"
    by simp
  then have "distinct (parseBannerDays s)"
    using distinct_weekday_codes by (rule subseqs_distinctD)
  with sub show ?thesis by simp
qed

theorem parseBannerDays_subseq_witness:
  "subseq (parseBannerDays ''Thursday, Monday'') weekday_codes \<and>
   distinct (parseBannerDays ''Thursday, Monday'') \<and>
   parseBannerDays ''Thursday, Monday'' = [''MO'', ''TU'', ''TH'', ''SA'', ''SU'']"
  using parseBannerDays_subseq [of "''Thursday, Monday''"] by code_simp

section \<open>Splitting and trimming\<close>

lemma split_on_not_Nil: "split_on c s \<noteq> []"
  by (induction s) (auto split: list.splits)

lemma length_split_on: "length (split_on c s) = Suc (length (filter (\<lambda>x. x = c) s))"
  by (induction s) (auto split: list.splits simp: split_on_not_Nil)

lemma filter_dropWhile_other: "\<not> P c \<Longrightarrow> filter (\<lambda>x. x = c) (dropWhile P xs) = filter (\<lambda>x. x = c) xs"
  by (induction xs) auto

lemma filter_trim_other: "\<not> js_whitespace c \<Longrightarrow> filter (\<lambda>x. x = c) (trim s) = filter (\<lambda>x. x = c) s"
  by (simp add: trim_def filter_dropWhile_other flip: rev_filter)

lemma length_split_on_trim:
  "\<not> js_whitespace c \<Longrightarrow> length (split_on c (trim s)) = length (split_on c s)"
  by (simp add: length_split_on filter_trim_other)

lemma split_on_single: "split_on c s = [b] \<Longrightarrow> s = b"
  by (induction s arbitrary: b) (auto split: if_splits list.splits simp: split_on_not_Nil)

lemma split_on_two: "split_on c s = [a, b] \<Longrightarrow> s = a @ c # b"
  by (induction s arbitrary: a) (auto split: if_splits list.splits dest: split_on_single)

lemma split_on_three: "split_on c s = [a, b, d] \<Longrightarrow> s = a @ c # b @ c # d"
  by (induction s arbitrary: a) (auto split: if_splits list.splits dest: split_on_two)

lemma split_on_no_sep: "c \<notin> set s \<Longrightarrow> split_on c s = [s]"
  by (induction s) auto

lemma split_on_append: "c \<notin> set a \<Longrightarrow> split_on c (a @ c # b) = a # split_on c b"
  by (induction a) auto

lemma dropWhile_none: "list_all (\<lambda>c. \<not> P c) s \<Longrightarrow> dropWhile P s = s"
  by (cases s) auto

lemma trim_no_space: "list_all (\<lambda>c. \<not> js_whitespace c) s \<Longrightarrow> trim s = s"
  by (simp add: trim_def dropWhile_none)

lemma digit_not_space: "is_digit c \<Longrightarrow> \<not> js_whitespace c"
  by (auto simp: is_digit_def js_whitespace_def LF_def CR_def)

lemma digits_no_space: "list_all is_digit s \<Longrightarrow> list_all (\<lambda>c. \<not> js_whitespace c) s"
  by (induction s) (auto simp: digit_not_space)

lemma hyphen_not_space: "\<not> js_whitespace (CHR ''-'')"
  by (simp add: js_whitespace_def LF_def CR_def)

section \<open>The time decoder\<close>

lemma formatTime_side:
  "length a = 3 \<or> length a = 4 \<Longrightarrow>
   formatTime a = padStart 2 (CHR ''0'') (take (length a - 2) a) @ '':'' @ drop (length a - 2) a"
  by (auto simp: formatTime_def padStart_def Let_def)

lemma parseBannerTime_None_iff:
  "parseBannerTime s = None \<longleftrightarrow> length (split_on (CHR ''-'') s) \<noteq> 2"
proof (cases "s = []")
  case True
  then show ?thesis by (simp add: parseBannerTime_def)
next
  case False
  have "length (split_on (CHR ''-'') (trim s)) = length (split_on (CHR ''-'') s)"
    by (rule length_split_on_trim [OF hyphen_not_space])
  with False show ?thesis
    by (auto simp: parseBannerTime_def split: list.splits)
qed

lemma parseBannerTime_sides:
  assumes sp: "split_on (CHR ''-'') s = [a, b]"
    and a: "length a = 3 \<or> length a = 4" "list_all is_digit a"
    and b: "length b = 3 \<or> length b = 4" "list_all is_digit b"
  shows "parseBannerTime s =
     Some \<lparr>td_start = padStart 2 (CHR ''0'') (take (length a - 2) a) @ '':'' @ drop (length a - 2) a,
           td_end = padStart 2 (CHR ''0'') (take (length b - 2) b) @ '':'' @ drop (length b - 2) b\<rparr>"
proof -
  have s: "s = a @ CHR ''-'' # b" using sp by (rule split_on_two)
  have ns: "list_all (\<lambda>c. \<not> js_whitespace c) s"
    using a(2) b(2) by (simp add: s digits_no_space hyphen_not_space)
  have "trim s = s" using ns by (rule trim_no_space)
  moreover have "s \<noteq> []" by (simp add: s)
  moreover have "trim a = a" "trim b = b"
    using a(2) b(2) by (simp_all add: trim_no_space digits_no_space)
  ultimately show ?thesis
    using sp a(1) b(1) by (simp add: parseBannerTime_def formatTime_side)
qed

text \<open>
  C7: on an input that the hyphen cuts into exactly two sides of three or four digits,
  \<open>parseBannerTime\<close> returns the pair in which each side gives its last two characters as
  minutes and the rest, padded with zeros to two characters, as hours; it returns null
  exactly on the inputs that the hyphen does not cut into two parts; and it decodes
  \<open>1230-1420\<close> to 12:30 and 14:20, \<open>830-1025\<close> to 08:30 and 10:25.
\<close>

theorem parseBannerTime_two_parts:
  "(\<forall>s a b. split_on (CHR ''-'') s = [a, b] \<and>
      (length a = 3 \<or> length a = 4) \<and> list_all is_digit a \<and>
      (length b = 3 \<or> length b = 4) \<and> list_all is_digit b \<longrightarrow>
      parseBannerTime s =
        Some \<lparr>td_start = padStart 2 (CHR ''0'') (take (length a - 2) a) @ '':'' @ drop (length a - 2) a,
              td_end = padStart 2 (CHR ''0'') (take (length b - 2) b) @ '':'' @ drop (length b - 2) b\<rparr>) \<and>
   (\<forall>s. (parseBannerTime s = None) = (length (split_on (CHR ''-'') s) \<noteq> 2)) \<and>
   parseBannerTime ''1230-1420'' = Some \<lparr>td_start = ''12:30'', td_end = ''14:20''\<rparr> \<and>
   parseBannerTime ''830-1025'' = Some \<lparr>td_start = ''08:30'', td_end = ''10:25''\<rparr>"
proof (intro conjI allI impI)
  fix s a b
  assume "split_on (CHR ''-'') s = [a, b] \<and>
      (length a = 3 \<or> length a = 4) \<and> list_all is_digit a \<and>
      (length b = 3 \<or> length b = 4) \<and> list_all is_digit b"
  then show "parseBannerTime s =
        Some \<lparr>td_start = padStart 2 (CHR ''0'') (take (length a - 2) a) @ '':'' @ drop (length a - 2) a,
              td_end = padStart 2 (CHR ''0'') (take (length b - 2) b) @ '':'' @ drop (length b - 2) b\<rparr>"
    by (intro parseBannerTime_sides) simp_all
next
  fix s show "(parseBannerTime s = None) = (length (split_on (CHR ''-'') s) \<noteq> 2)"
    by (rule parseBannerTime_None_iff)
next
  show "parseBannerTime ''1230-1420'' = Some \<lparr>td_start = ''12:30'', td_end = ''14:20''\<rparr>"
    by code_simp
next
  show "parseBannerTime ''830-1025'' = Some \<lparr>td_start = ''08:30'', td_end = ''10:25''\<rparr>"
    by code_simp
qed

theorem parseBannerTime_two_parts_witness:
  "split_on (CHR ''-'') ''930-1145'' = [''930'', ''1145''] \<and>
   parseBannerTime ''930-1145'' = Some \<lparr>td_start = ''09:30'', td_end = ''11:45''\<rparr> \<and>
   length (split_on (CHR ''-'') ''9-30-1145'') \<noteq> 2 \<and>
   parseBannerTime ''9-30-1145'' = None"
proof -
  have sp: "split_on (CHR ''-'') ''930-1145'' = [''930'', ''1145'']" by simp
  have l3: "length (split_on (CHR ''-'') ''9-30-1145'') \<noteq> 2" by simp
  have d: "list_all is_digit ''930''" "list_all is_digit ''1145''" by (simp_all add: is_digit_def)
  from parseBannerTime_two_parts have
    "parseBannerTime ''930-1145'' =
        Some \<lparr>td_start = padStart 2 (CHR ''0'') (take (length ''930'' - 2) ''930'') @ '':'' @ drop (length ''930'' - 2) ''930'',
              td_end = padStart 2 (CHR ''0'') (take (length ''1145'' - 2) ''1145'') @ '':'' @ drop (length ''1145'' - 2) ''1145''\<rparr>"
    using sp d by (elim conjE allE [of _ "''930-1145''"] allE [of _ "''930''"] allE [of _ "''1145''"]) simp
  moreover from parseBannerTime_two_parts l3 have "parseBannerTime ''9-30-1145'' = None"
    by blast
  ultimately show ?thesis using sp l3 by (simp add: padStart_def)
qed

section \<open>Case mapping\<close>

text \<open>The case mapping, one code unit at a time.\<close>

lemma toUpperChar_unfold:
  "toUpperChar x =
     (if x = CHR 0xDF then ''SS'' else
      if x = CHR ''a'' then ''A'' else
      if x = CHR ''b'' then ''B'' else
      if x = CHR ''c'' then ''C'' else
      if x = CHR ''d'' then ''D'' else
      if x = CHR ''e'' then ''E'' else
      if x = CHR ''f'' then ''F'' else
      if x = CHR ''g'' then ''G'' else
      if x = CHR ''h'' then ''H'' else
      if x = CHR ''i'' then ''I'' else
      if x = CHR ''j'' then ''J'' else
      if x = CHR ''k'' then ''K'' else
      if x = CHR ''l'' then ''L'' else
      if x = CHR ''m'' then ''M'' else
      if x = CHR ''n'' then ''N'' else
      if x = CHR ''o'' then ''O'' else
      if x = CHR ''p'' then ''P'' else
      if x = CHR ''q'' then ''Q'' else
      if x = CHR ''r'' then ''R'' else
      if x = CHR ''s'' then ''S'' else
      if x = CHR ''t'' then ''T'' else
      if x = CHR ''u'' then ''U'' else
      if x = CHR ''v'' then ''V'' else
      if x = CHR ''w'' then ''W'' else
      if x = CHR ''x'' then ''X'' else
      if x = CHR ''y'' then ''Y'' else
      if x = CHR ''z'' then ''Z'' else
      if x = CHR 0xE0 then [CHR 0xC0] else
      if x = CHR 0xE1 then [CHR 0xC1] else
      if x = CHR 0xE2 then [CHR 0xC2] else
      if x = CHR 0xE3 then [CHR 0xC3] else
      if x = CHR 0xE4 then [CHR 0xC4] else
      if x = CHR 0xE5 then [CHR 0xC5] else
      if x = CHR 0xE6 then [CHR 0xC6] else
      if x = CHR 0xE7 then [CHR 0xC7] else
      if x = CHR 0xE8 then [CHR 0xC8] else
      if x = CHR 0xE9 then [CHR 0xC9] else
      if x = CHR 0xEA then [CHR 0xCA] else
      if x = CHR 0xEB then [CHR 0xCB] else
      if x = CHR 0xEC then [CHR 0xCC] else
      if x = CHR 0xED then [CHR 0xCD] else
      if x = CHR 0xEE then [CHR 0xCE] else
      if x = CHR 0xEF then [CHR 0xCF] else
      if x = CHR 0xF0 then [CHR 0xD0] else
      if x = CHR 0xF1 then [CHR 0xD1] else
      if x = CHR 0xF2 then [CHR 0xD2] else
      if x = CHR 0xF3 then [CHR 0xD3] else
      if x = CHR 0xF4 then [CHR 0xD4] else
      if x = CHR 0xF5 then [CHR 0xD5] else
      if x = CHR 0xF6 then [CHR 0xD6] else
      if x = CHR 0xF8 then [CHR 0xD8] else
      if x = CHR 0xF9 then [CHR 0xD9] else
      if x = CHR 0xFA then [CHR 0xDA] else
      if x = CHR 0xFB then [CHR 0xDB] else
      if x = CHR 0xFC then [CHR 0xDC] else
      if x = CHR 0xFD then [CHR 0xDD] else
      if x = CHR 0xFE then [CHR 0xDE] else
      [x])"
  by (simp add: toUpperChar_def)

lemma toUpperChar_not_Nil: "toUpperChar c \<noteq> []"
  by (simp add: toUpperChar_unfold)

lemma toUpperChar_space: "u \<in> set (toUpperChar c) \<Longrightarrow> js_whitespace u = js_whitespace c"
  by (simp add: toUpperChar_unfold js_whitespace_def LF_def CR_def split: if_splits)

lemma toUpperChar_letter:
  "list_all (\<lambda>u. u \<in> set ''ABCDEFGHIJKLMNOPQRSTUVWXYZ'') (toUpperChar c) \<Longrightarrow> c \<noteq> CHR 0xDF \<Longrightarrow>
   is_alpha c"
  by (simp add: toUpperChar_unfold is_alpha_def split: if_splits)

section \<open>The days decoder on strings that are not masks\<close>

lemma days_loop_Nil_iff:
  "days_loop t positions [] = [] \<longleftrightarrow>
     CHR ''M'' \<notin> set t \<and> CHR ''T'' \<notin> set t \<and> CHR ''W'' \<notin> set t \<and> CHR ''R'' \<notin> set t \<and>
     CHR ''F'' \<notin> set t \<and> CHR ''S'' \<notin> set t \<and> CHR ''U'' \<notin> set t"
  by (simp add: days_loop_positions)

lemma parseBannerDays_no_letter:
  assumes "set (toUpperCase (trim s)) \<inter> set ''MTWRFSU'' = {}"
  shows "parseBannerDays s = []"
proof -
  have "CHR ''M'' \<notin> set (toUpperCase (trim s))" "CHR ''T'' \<notin> set (toUpperCase (trim s))"
    "CHR ''W'' \<notin> set (toUpperCase (trim s))" "CHR ''R'' \<notin> set (toUpperCase (trim s))"
    "CHR ''F'' \<notin> set (toUpperCase (trim s))" "CHR ''S'' \<notin> set (toUpperCase (trim s))"
    "CHR ''U'' \<notin> set (toUpperCase (trim s))"
    using assms by auto
  then have "days_loop (toUpperCase (trim s)) positions [] = []"
    by (simp add: days_loop_Nil_iff)
  then show ?thesis
    by (simp add: parseBannerDays_def)
qed

text \<open>
  The script's comment calls the loop position-based parsing, while its test is whether
  the letter occurs anywhere in the input: \<open>TBA\<close> is decoded to Tuesday, and a sharp s,
  which \<open>toUpperCase\<close> turns into SS, to Saturday.
\<close>

lemma parseBannerDays_TBA:
  "parseBannerDays ''TBA'' = [''TU''] \<and> parseBannerDays [CHR 0xDF] = [''SA'']"
  by code_simp

text \<open>
  C3, as the script has it: \<open>parseBannerDays\<close> has no check of the length or the alphabet
  of its input. For every input string, a mask or not, it returns a sequence of weekday
  codes, each at most once and Monday first, and never fails; the sequence is empty for
  the empty string and for every input in which, once trimmed and upper-cased, none of
  the letters M, T, W, R, F, S, U occurs, as in the mask of seven hyphens. What it
  returns for an invalid input that holds one of the letters is left open here.
\<close>

theorem parseBannerDays_empty_when:
  "parseBannerDays [] = [] \<and>
   (set (toUpperCase (trim s)) \<inter> set ''MTWRFSU'' = {} \<longrightarrow> parseBannerDays s = []) \<and>
   subseq (parseBannerDays s) weekday_codes \<and> distinct (parseBannerDays s)"
proof (intro conjI impI)
  show "parseBannerDays [] = []"
    by (simp add: parseBannerDays_def)
  show "parseBannerDays s = []" if "set (toUpperCase (trim s)) \<inter> set ''MTWRFSU'' = {}"
    using that by (rule parseBannerDays_no_letter)
  show sub: "subseq (parseBannerDays s) weekday_codes"
    by (simp add: parseBannerDays_def days_loop_subseq)
  then have "parseBannerDays s \<in> set (subseqs weekday_codes)"
    by simp
  then show "distinct (parseBannerDays s)"
    using distinct_weekday_codes by (rule subseqs_distinctD)
qed

theorem parseBannerDays_empty_when_witness:
  "set (toUpperCase (trim ''12:30 pm'')) \<inter> set ''MTWRFSU'' \<noteq> {} \<and>
   set (toUpperCase (trim '' 1230-1420 '')) \<inter> set ''MTWRFSU'' = {} \<and>
   parseBannerDays '' 1230-1420 '' = [] \<and>
   set (toUpperCase (trim ''-------'')) \<inter> set ''MTWRFSU'' = {} \<and>
   parseBannerDays ''-------'' = [] \<and>
   parseBannerDays [] = []"
proof -
  have a: "set (toUpperCase (trim '' 1230-1420 '')) \<inter> set ''MTWRFSU'' = {}"
    by code_simp
  have b: "set (toUpperCase (trim ''-------'')) \<inter> set ''MTWRFSU'' = {}"
    by code_simp
  have c: "set (toUpperCase (trim ''12:30 pm'')) \<inter> set ''MTWRFSU'' \<noteq> {}"
    by code_simp
  from parseBannerDays_empty_when [of "'' 1230-1420 ''"] parseBannerDays_empty_when [of "''-------''"] a b c
  show ?thesis by blast
qed

text \<open>The claim as stated fails on \<open>MW\<close>, which is not a mask of seven characters.\<close>

theorem parseBannerDays_invalid_counterexample:
  "\<not> is_day_mask ''MW'' \<and> parseBannerDays ''MW'' = [''MO'', ''WE'']"
  by code_simp

section \<open>Text escaping\<close>

lemma replace_all_char_append:
  "replace_all_char c r (a @ b) = replace_all_char c r a @ replace_all_char c r b"
  by (induction a) auto

lemma escapeICSText_chain:
  "escapeICSText s =
     replace_all_char LF [CHR 0x5C, CHR ''n'']
       (replace_all_char (CHR '','') [CHR 0x5C, CHR '','']
         (replace_all_char (CHR '';'') [CHR 0x5C, CHR '';'']
           (replace_all_char (CHR 0x5C) [CHR 0x5C, CHR 0x5C] s)))"
  by (simp add: escapeICSText_def)

lemma escapeICSText_Nil: "escapeICSText [] = []"
  by (simp add: escapeICSText_def)

lemma escapeICSText_Cons:
  "escapeICSText (x # xs) =
     (if x = CHR 0x5C then [CHR 0x5C, CHR 0x5C]
      else if x = CHR '';'' then [CHR 0x5C, CHR '';'']
      else if x = CHR '','' then [CHR 0x5C, CHR '','']
      else if x = LF then [CHR 0x5C, CHR ''n'']
      else [x]) @ escapeICSText xs"
  by (simp add: escapeICSText_chain replace_all_char_append LF_def)

lemma unescapeICSText_plain:
  "x \<noteq> CHR 0x5C \<Longrightarrow> unescapeICSText (x # r) = x # unescapeICSText r"
  by (cases r) auto

lemma unescape_escape: "unescapeICSText (escapeICSText s) = s"
  by (induction s) (auto simp: escapeICSText_Nil escapeICSText_Cons unescapeICSText_plain LF_def)

text \<open>
  C10: \<open>escapeICSText\<close> escapes the backslash first, then the semicolon, the comma and
  the line feed, and so it can be undone: \<open>unescapeICSText\<close> gives every string back from
  its escaped form, and no two strings have the same escaped form.
\<close>

theorem escapeICSText_roundtrip:
  "(\<forall>s. unescapeICSText (escapeICSText s) = s) \<and> inj escapeICSText \<and>
   (\<exists>u. \<forall>s. u (escapeICSText s) = s)"
proof (intro conjI allI)
  show "inj escapeICSText"
    by (rule inj_on_inverseI [where g = unescapeICSText]) (rule unescape_escape)
  show "\<exists>u. \<forall>s. u (escapeICSText s) = s"
    using unescape_escape by blast
qed (rule unescape_escape)

theorem escapeICSText_roundtrip_witness:
  "unescapeICSText (escapeICSText [CHR ''A'', CHR '';'', CHR 0x5C, CHR ''n'', CHR '','', LF, CHR 0x5C]) =
     [CHR ''A'', CHR '';'', CHR 0x5C, CHR ''n'', CHR '','', LF, CHR 0x5C] \<and>
   escapeICSText [CHR ''A'', CHR '';'', CHR 0x5C, CHR ''n'', CHR '','', LF, CHR 0x5C] =
     [CHR ''A'', CHR 0x5C, CHR '';'', CHR 0x5C, CHR 0x5C, CHR ''n'', CHR 0x5C, CHR '','', CHR 0x5C, CHR ''n'',
      CHR 0x5C, CHR 0x5C]"
  using escapeICSText_roundtrip by (simp add: escapeICSText_Cons escapeICSText_Nil LF_def)

section \<open>The date decoder\<close>

lemma parseBannerDate_06_MAY: "parseBannerDate legacy ''06-MAY-2024'' = Some ''20240506''"
  by code_simp

lemma parseBannerDate_09_AUG: "parseBannerDate legacy ''09-AUG-2024'' = Some ''20240809''"
  by code_simp

lemma parseBannerDate_parts:
  "length (split_on (CHR ''-'') s) \<noteq> 3 \<Longrightarrow> parseBannerDate legacy s = None"
proof -
  assume a: "length (split_on (CHR ''-'') s) \<noteq> 3"
  have "length (split_on (CHR ''-'') (trim s)) = length (split_on (CHR ''-'') s)"
    by (rule length_split_on_trim [OF hyphen_not_space])
  with a show ?thesis
    by (auto simp: parseBannerDate_def split: list.splits)
qed

lemma parseBannerDate_unknown_month:
  "split_on (CHR ''-'') (trim s) = [d, m, y] \<Longrightarrow> MONTH_MAP (toUpperCase m) = None \<Longrightarrow>
   parseBannerDate legacy s = None"
  by (simp add: parseBannerDate_def)

lemma alpha_plain: "is_alpha c \<Longrightarrow> c \<noteq> CHR ''-'' \<and> \<not> js_whitespace c"
  unfolding is_alpha_def js_whitespace_def LF_def CR_def by auto

lemma digit_plain: "is_digit c \<Longrightarrow> c \<noteq> CHR ''-''"
  unfolding is_digit_def by auto

lemma month_entry:
  "MONTH_MAP k = Some mm \<Longrightarrow>
     list_all (\<lambda>c. c \<in> set ''ABCDEFGHIJKLMNOPQRSTUVWXYZ'') k \<and> \<not> str_includes k ''SS'' \<and>
     length mm = 2 \<and> list_all is_digit mm \<and> mm \<noteq> [] \<and>
     (\<exists>v. parseInt mm = Some v \<and> 1 \<le> v \<and> v \<le> 12)"
  unfolding MONTH_MAP_def
  by (auto simp: is_digit_def parseInt_def js_whitespace_def LF_def CR_def digit_val_def
      split: if_splits)

lemma str_includes_sublist: "str_includes s p = sublist p s"
  by (induction s) (auto simp: sublist_Cons_right)

lemma sublist_concat_map: "c \<in> set m \<Longrightarrow> sublist (f c) (concat (map f m))"
proof -
  assume "c \<in> set m"
  then obtain xs ys where "m = xs @ c # ys"
    by (auto simp: in_set_conv_decomp)
  then have "concat (map f m) = concat (map f xs) @ f c @ concat (map f ys)"
    by simp
  then show ?thesis
    by (simp only: sublist_appendI)
qed

lemma month_letters:
  assumes "MONTH_MAP (toUpperCase m) = Some mm"
  shows "list_all is_alpha m"
proof -
  note e = month_entry [OF assms]
  have "is_alpha c" if c: "c \<in> set m" for c
  proof -
    have sub: "sublist (toUpperChar c) (toUpperCase m)"
      unfolding toUpperCase_def using c by (rule sublist_concat_map)
    have "c \<noteq> CHR 0xDF"
    proof
      assume "c = CHR 0xDF"
      then have "sublist ''SS'' (toUpperCase m)"
        using sub by (simp add: toUpperChar_unfold)
      then show False
        using e by (simp add: str_includes_sublist)
    qed
    moreover have "set (toUpperChar c) \<subseteq> set (toUpperCase m)"
      using c by (auto simp: toUpperCase_def)
    then have "list_all (\<lambda>u. u \<in> set ''ABCDEFGHIJKLMNOPQRSTUVWXYZ'') (toUpperChar c)"
      using e unfolding list_all_iff by blast
    ultimately show ?thesis
      by (intro toUpperChar_letter)
  qed
  then show ?thesis
    by (simp add: list_all_iff)
qed

lemma split_on_three_parts:
  "CHR ''-'' \<notin> set d \<Longrightarrow> CHR ''-'' \<notin> set m \<Longrightarrow> CHR ''-'' \<notin> set y \<Longrightarrow>
   split_on (CHR ''-'') (d @ CHR ''-'' # m @ CHR ''-'' # y) = [d, m, y]"
  by (simp add: split_on_append split_on_no_sep)

lemma notin_set_list_all: "list_all P xs \<Longrightarrow> (\<And>c. P c \<Longrightarrow> c \<noteq> a) \<Longrightarrow> a \<notin> set xs"
  by (auto simp: list_all_iff)

lemma digits_no_hyphen: "list_all is_digit xs \<Longrightarrow> CHR ''-'' \<notin> set xs"
  by (erule notin_set_list_all) (rule digit_plain)

lemma alphas_plain:
  "list_all is_alpha xs \<Longrightarrow> CHR ''-'' \<notin> set xs \<and> list_all (\<lambda>c. \<not> js_whitespace c) xs"
  using alpha_plain by (auto simp: list_all_iff)

lemma padStart_day:
  "length d = 1 \<or> length d = 2 \<Longrightarrow> list_all is_digit d \<Longrightarrow>
   length (padStart 2 (CHR ''0'') d) = 2 \<and> list_all is_digit (padStart 2 (CHR ''0'') d)"
  by (auto simp: padStart_def is_digit_def)

lemma Date_valid_iso:
  assumes y: "length y = 4" "list_all is_digit y"
    and mm: "length mm = 2" "list_all is_digit mm" "parseInt mm = Some v" "1 \<le> v" "v \<le> 12"
    and pd: "length pd = 2" "list_all is_digit pd"
  shows "Date_valid legacy (y @ ''-'' @ mm @ ''-'' @ pd) =
     (case parseInt pd of None \<Rightarrow> False | Some n \<Rightarrow> 1 \<le> n \<and> n \<le> 31)"
proof -
  have nh: "CHR ''-'' \<notin> set y" "CHR ''-'' \<notin> set mm" "CHR ''-'' \<notin> set pd"
    using y(2) mm(2) pd(2) by (simp_all add: digits_no_hyphen)
  have iso: "iso_date_only (y @ ''-'' @ mm @ ''-'' @ pd)"
    using y mm(1,2) pd by (simp add: iso_date_only_def split_on_three_parts [OF nh])
  have "take 2 (drop 5 (y @ ''-'' @ mm @ ''-'' @ pd)) = mm"
    "take 2 (drop 8 (y @ ''-'' @ mm @ ''-'' @ pd)) = pd"
    using y(1) mm(1) pd(1) by simp_all
  then show ?thesis
    using iso mm(3,4,5) by (simp add: Date_valid_def split: option.splits)
qed

text \<open>
  Every input of the form D[D]-MMM-YYYY with one of the twelve months, in any case, is
  decoded to the eight digits when its day is between 01 and 31, whatever the month, and
  to null when its day is 00 or above 31.
\<close>

lemma parseBannerDate_well_formed:
  assumes d: "length d = 1 \<or> length d = 2" "list_all is_digit d"
    and m: "MONTH_MAP (toUpperCase m) = Some mm"
    and y: "length y = 4" "list_all is_digit y"
  shows "parseBannerDate legacy (d @ ''-'' @ m @ ''-'' @ y) =
     (case parseInt (padStart 2 (CHR ''0'') d) of
        None \<Rightarrow> None
      | Some n \<Rightarrow> if 1 \<le> n \<and> n \<le> 31 then Some (y @ mm @ padStart 2 (CHR ''0'') d) else None)"
proof -
  let ?s = "d @ ''-'' @ m @ ''-'' @ y"
  have al: "list_all is_alpha m" using m by (rule month_letters)
  have nh: "CHR ''-'' \<notin> set d" "CHR ''-'' \<notin> set m" "CHR ''-'' \<notin> set y"
    using d(2) y(2) al by (simp_all add: digits_no_hyphen alphas_plain)
  have "list_all (\<lambda>c. \<not> js_whitespace c) ?s"
    using d(2) y(2) al by (simp add: digits_no_space alphas_plain hyphen_not_space)
  then have tr: "trim ?s = ?s" by (rule trim_no_space)
  have sp: "split_on (CHR ''-'') ?s = [d, m, y]"
    using split_on_three_parts [OF nh] by simp
  obtain v where mm: "length mm = 2" "list_all is_digit mm" "mm \<noteq> []"
    "parseInt mm = Some v" "1 \<le> v" "v \<le> 12"
    using month_entry [OF m] by blast
  note pd = padStart_day [OF d]
  have dv: "Date_valid legacy (y @ ''-'' @ mm @ ''-'' @ padStart 2 (CHR ''0'') d) =
     (case parseInt (padStart 2 (CHR ''0'') d) of None \<Rightarrow> False | Some n \<Rightarrow> 1 \<le> n \<and> n \<le> 31)"
    using y mm(1,2,4,5,6) pd by (intro Date_valid_iso) simp_all
  have dv': "Date_valid legacy (y @ CHR ''-'' # mm @ CHR ''-'' # padStart 2 (CHR ''0'') d) =
     (case parseInt (padStart 2 (CHR ''0'') d) of None \<Rightarrow> False | Some n \<Rightarrow> 1 \<le> n \<and> n \<le> 31)"
    using dv by simp
  have ne: "?s \<noteq> []" by simp
  show ?thesis
    unfolding parseBannerDate_def tr sp
    using ne m mm(3) by (simp add: dv' Let_def split: option.splits)
qed

text \<open>
  C2 says that \<open>parseBannerDate\<close> returns null on an impossible calendar date such as
  \<open>30-FEB-2024\<close>. The script checks the date with \<open>new Date\<close>, which in the browsers the
  extension is written for accepts every day from 01 to 31 in every month: on
  \<open>30-FEB-2024\<close> \<open>parseBannerDate\<close> returns \<open>20240230\<close>, whatever the engine does with strings
  that are not of the shape \<open>YYYY-MM-DD\<close>. The two dates of the claim that exist are decoded
  as it says.
\<close>

theorem parseBannerDate_30_FEB:
  "parseBannerDate legacy ''30-FEB-2024'' = Some ''20240230'' \<and>
   parseBannerDate legacy ''06-MAY-2024'' = Some ''20240506'' \<and>
   parseBannerDate legacy ''6-may-2024'' = Some ''20240506''"
  by code_simp

section \<open>The calendar functions and the time stamps\<close>

lemma div_bounds: "0 < k \<Longrightarrow> k * (x div k) \<le> x \<and> x < k * (x div k) + (k::int)"
  using pos_mod_bound [of k x] pos_mod_sign [of k x] mult_div_mod_eq [of k x] by linarith

lemma DayFromYear_upper: "400 * DayFromYear y \<le> 146097 * (y - 1970) + 589"
proof -
  define a where "a = (y - 1969) div 4"
  define b where "b = (y - 1901) div 100"
  define c where "c = (y - 1601) div 400"
  have "4 * a \<le> y - 1969" "y - 1901 < 100 * b + 100" "400 * c \<le> y - 1601"
    using div_bounds [of 4 "y - 1969"] div_bounds [of 100 "y - 1901"] div_bounds [of 400 "y - 1601"]
    by (simp_all add: a_def b_def c_def)
  then have "400 * a \<le> 100 * (y - 1969)" "4 * (y - 2000) \<le> 400 * b" "400 * c \<le> y - 1601"
    by simp_all
  moreover have "400 * DayFromYear y = 146000 * (y - 1970) + 400 * a - 400 * b + 400 * c"
    by (simp add: DayFromYear_def a_def b_def c_def)
  ultimately show ?thesis by simp
qed

lemma DayFromYear_lower: "146097 * (y - 1970) - 506 \<le> 400 * DayFromYear y"
proof -
  define a where "a = (y - 1969) div 4"
  define b where "b = (y - 1901) div 100"
  define c where "c = (y - 1601) div 400"
  have "y - 1969 < 4 * a + 4" "100 * b \<le> y - 1901" "y - 1601 < 400 * c + 400"
    using div_bounds [of 4 "y - 1969"] div_bounds [of 100 "y - 1901"] div_bounds [of 400 "y - 1601"]
    by (simp_all add: a_def b_def c_def)
  then have "100 * (y - 1972) \<le> 400 * a" "400 * b \<le> 4 * (y - 1901)" "y - 2000 \<le> 400 * c"
    by simp_all
  moreover have "400 * DayFromYear y = 146000 * (y - 1970) + 400 * a - 400 * b + 400 * c"
    by (simp add: DayFromYear_def a_def b_def c_def)
  ultimately show ?thesis by simp
qed

lemma year_estimate:
  "DayFromYear (1970 + (400 * d) div 146097 - 1) \<le> d \<and>
   d < DayFromYear (1970 + (400 * d) div 146097 + 1 + 1)"
proof -
  define n where "n = (400 * d) div 146097"
  have n: "146097 * n \<le> 400 * d" "400 * d < 146097 * n + 146097"
    using div_bounds [of 146097 "400 * d"] by (simp_all add: n_def)
  have "400 * DayFromYear (1970 + n - 1) \<le> 146097 * (n - 1) + 589"
    using DayFromYear_upper [of "1970 + n - 1"] by simp
  then have "400 * DayFromYear (1970 + n - 1) \<le> 400 * d" using n by simp
  then have lo: "DayFromYear (1970 + n - 1) \<le> d" by simp
  have "146097 * (n + 2) - 506 \<le> 400 * DayFromYear (1970 + n + 1 + 1)"
    using DayFromYear_lower [of "1970 + n + 1 + 1"] by simp
  then have "400 * d < 400 * DayFromYear (1970 + n + 1 + 1)" using n by simp
  then have hi: "d < DayFromYear (1970 + n + 1 + 1)" by simp
  from lo hi show ?thesis by (simp add: n_def)
qed

lemma YearFromDay_bounds:
  "DayFromYear (YearFromDay d) \<le> d \<and> d < DayFromYear (YearFromDay d + 1)"
  using year_estimate [of d] by (auto simp: YearFromDay_def Let_def)

lemma DayFromYear_increasing: "DayFromYear y < DayFromYear (y + 1)"
proof -
  have "(y - 1969) div 4 \<le> (y + 1 - 1969) div 4" "(y - 1601) div 400 \<le> (y + 1 - 1601) div 400"
    by (simp_all add: zdiv_mono1)
  moreover have "(y + 1 - 1901) div 100 \<le> (y - 1901) div 100 + 1"
    using div_bounds [of 100 "y - 1901"] div_bounds [of 100 "y + 1 - 1901"] by linarith
  ultimately show ?thesis by (simp add: DayFromYear_def)
qed

lemma formatICSDateTimeUTC_09_AUG: "formatICSDateTimeUTC ''20240809'' ''23:59'' = ''20240810T075900Z''"
  by code_simp

lemma parseBannerTime_1230: "parseBannerTime ''1230-1420'' = Some \<lparr>td_start = ''12:30'', td_end = ''14:20''\<rparr>"
  by code_simp

lemma parseBannerDays_TR: "parseBannerDays ''-T-R---'' = [''TU'', ''TH'']"
  by code_simp

lemma formatICSDateTime_start: "formatICSDateTime ''20240506'' ''12:30'' = Inr ''20240506T123000''"
  by code_simp

lemma formatICSDateTime_end: "formatICSDateTime ''20240506'' ''14:20'' = Inr ''20240506T142000''"
  by code_simp

lemma createEvent_lecture:
  "createEvent legacy \<lparr>cd_subject = sj, cd_course = cr, cd_section = se, cd_title = ti,
      cd_type = ''LECTURE'', cd_days = ''-T-R---'', cd_time = ''1230-1420'',
      cd_start = ''06-MAY-2024'', cd_end = ''09-AUG-2024'', cd_room = rm\<rparr> =
   Inr (''BEGIN:VEVENT'' @ CRLF @
        ''DTSTART;TZID=America/Los_Angeles:20240506T123000'' @ CRLF @
        ''DTEND;TZID=America/Los_Angeles:20240506T142000'' @ CRLF @
        ''RRULE:FREQ=WEEKLY;BYDAY=TU,TH;UNTIL=20240810T075900Z'' @ CRLF @
        event_tail \<lparr>cd_subject = sj, cd_course = cr, cd_section = se, cd_title = ti,
          cd_type = ''LECTURE'', cd_days = ''-T-R---'', cd_time = ''1230-1420'',
          cd_start = ''06-MAY-2024'', cd_end = ''09-AUG-2024'', cd_room = rm\<rparr>)"
  by (simp add: createEvent_def event_rrule_def parseBannerDate_06_MAY parseBannerDate_09_AUG
      parseBannerTime_1230 parseBannerDays_TR formatICSDateTime_start formatICSDateTime_end
      formatICSDateTimeUTC_09_AUG)

section \<open>The example session\<close>

lemma lines_crlf_not_Nil: "lines_crlf s \<noteq> []"
  by (induction s rule: lines_crlf.induct) (auto split: list.splits)

lemma lines_crlf_line: "LF \<notin> set a \<Longrightarrow> lines_crlf (a @ CRLF @ r) = a # lines_crlf r"
proof (induction a)
  case Nil
  show ?case by (simp add: CRLF_def)
next
  case (Cons x xs)
  then have ih: "lines_crlf (xs @ CRLF @ r) = xs # lines_crlf r" by simp
  obtain d r' where dr: "xs @ CRLF @ r = d # r'" and d: "d \<noteq> LF"
    using Cons.prems by (cases xs) (auto simp: CRLF_def CR_def LF_def)
  have "lines_crlf (x # d # r') = (x # xs) # lines_crlf r"
    using ih d by (simp add: dr)
  then show ?case by (simp add: dr)
qed

lemma LF_notin_escapeICSText: "LF \<notin> set (escapeICSText s)"
  by (induction s) (auto simp: escapeICSText_Nil escapeICSText_Cons LF_def)

lemma lines_crlf_concat:
  "list_all (\<lambda>l. LF \<notin> set l) ls \<Longrightarrow> lines_crlf (concat (map (\<lambda>l. l @ CRLF) ls)) = ls @ [[]]"
  by (induction ls) (simp_all add: lines_crlf_line)

lemma generateICS_single:
  "createEvent legacy c = Inr e \<Longrightarrow> e \<noteq> [] \<Longrightarrow> generateICS legacy [c] = Inr (ics_header @ e @ ics_footer)"
  by (simp add: generateICS_def)

text \<open>
  C1: the session LECTURE, days \<open>-T-R---\<close>, time \<open>1230-1420\<close>, from \<open>06-MAY-2024\<close> to
  \<open>09-AUG-2024\<close>, whatever its other fields, gives one VEVENT block: the event and the
  calendar made from it hold one line \<open>BEGIN:VEVENT\<close>, and the event's first lines are
  DTSTART at 20240506T123000, DTEND at 20240506T142000 and the weekly rule for TU,TH until
  20240810T075900Z, which is the end date at 23:59 moved forward by eight hours, into the
  next day.
\<close>

theorem createEvent_lecture_example:
  "createEvent legacy \<lparr>cd_subject = sj, cd_course = cr, cd_section = se, cd_title = ti,
      cd_type = ''LECTURE'', cd_days = ''-T-R---'', cd_time = ''1230-1420'',
      cd_start = ''06-MAY-2024'', cd_end = ''09-AUG-2024'', cd_room = rm\<rparr> =
   Inr (''BEGIN:VEVENT'' @ CRLF @
        ''DTSTART;TZID=America/Los_Angeles:20240506T123000'' @ CRLF @
        ''DTEND;TZID=America/Los_Angeles:20240506T142000'' @ CRLF @
        ''RRULE:FREQ=WEEKLY;BYDAY=TU,TH;UNTIL=20240810T075900Z'' @ CRLF @
        event_tail \<lparr>cd_subject = sj, cd_course = cr, cd_section = se, cd_title = ti,
          cd_type = ''LECTURE'', cd_days = ''-T-R---'', cd_time = ''1230-1420'',
          cd_start = ''06-MAY-2024'', cd_end = ''09-AUG-2024'', cd_room = rm\<rparr>) \<and>
   generateICS legacy [\<lparr>cd_subject = sj, cd_course = cr, cd_section = se, cd_title = ti,
      cd_type = ''LECTURE'', cd_days = ''-T-R---'', cd_time = ''1230-1420'',
      cd_start = ''06-MAY-2024'', cd_end = ''09-AUG-2024'', cd_room = rm\<rparr>] =
   Inr (ics_header @
        ''BEGIN:VEVENT'' @ CRLF @
        ''DTSTART;TZID=America/Los_Angeles:20240506T123000'' @ CRLF @
        ''DTEND;TZID=America/Los_Angeles:20240506T142000'' @ CRLF @
        ''RRULE:FREQ=WEEKLY;BYDAY=TU,TH;UNTIL=20240810T075900Z'' @ CRLF @
        event_tail \<lparr>cd_subject = sj, cd_course = cr, cd_section = se, cd_title = ti,
          cd_type = ''LECTURE'', cd_days = ''-T-R---'', cd_time = ''1230-1420'',
          cd_start = ''06-MAY-2024'', cd_end = ''09-AUG-2024'', cd_room = rm\<rparr> @
        ics_footer) \<and>
   count_vevents
       (ics_header @
        ''BEGIN:VEVENT'' @ CRLF @
        ''DTSTART;TZID=America/Los_Angeles:20240506T123000'' @ CRLF @
        ''DTEND;TZID=America/Los_Angeles:20240506T142000'' @ CRLF @
        ''RRULE:FREQ=WEEKLY;BYDAY=TU,TH;UNTIL=20240810T075900Z'' @ CRLF @
        event_tail \<lparr>cd_subject = sj, cd_course = cr, cd_section = se, cd_title = ti,
          cd_type = ''LECTURE'', cd_days = ''-T-R---'', cd_time = ''1230-1420'',
          cd_start = ''06-MAY-2024'', cd_end = ''09-AUG-2024'', cd_room = rm\<rparr> @
        ics_footer) = 1 \<and>
   formatICSDateTimeUTC ''20240809'' ''23:59'' = ''20240810T075900Z''"
proof (intro conjI)
  let ?c = "\<lparr>cd_subject = sj, cd_course = cr, cd_section = se, cd_title = ti,
      cd_type = ''LECTURE'', cd_days = ''-T-R---'', cd_time = ''1230-1420'',
      cd_start = ''06-MAY-2024'', cd_end = ''09-AUG-2024'', cd_room = rm\<rparr>"
  let ?e = "''BEGIN:VEVENT'' @ CRLF @
        ''DTSTART;TZID=America/Los_Angeles:20240506T123000'' @ CRLF @
        ''DTEND;TZID=America/Los_Angeles:20240506T142000'' @ CRLF @
        ''RRULE:FREQ=WEEKLY;BYDAY=TU,TH;UNTIL=20240810T075900Z'' @ CRLF @
        event_tail ?c"
  show ev: "createEvent legacy ?c = Inr ?e"
    by (rule createEvent_lecture)
  have "generateICS legacy [?c] = Inr (ics_header @ ?e @ ics_footer)"
    using ev by (rule generateICS_single) simp
  then show "generateICS legacy [?c] = Inr (ics_header @
        ''BEGIN:VEVENT'' @ CRLF @
        ''DTSTART;TZID=America/Los_Angeles:20240506T123000'' @ CRLF @
        ''DTEND;TZID=America/Los_Angeles:20240506T142000'' @ CRLF @
        ''RRULE:FREQ=WEEKLY;BYDAY=TU,TH;UNTIL=20240810T075900Z'' @ CRLF @
        event_tail ?c @ ics_footer)"
    by simp
  let ?ls = "[''BEGIN:VCALENDAR'', ''VERSION:2.0'', ''PRODID:-//Langara Swing Schedule Exporter//EN'',
      ''CALSCALE:GREGORIAN'', ''X-WR-TIMEZONE:America/Los_Angeles'',
      ''BEGIN:VEVENT'',
      ''DTSTART;TZID=America/Los_Angeles:20240506T123000'',
      ''DTEND;TZID=America/Los_Angeles:20240506T142000'',
      ''RRULE:FREQ=WEEKLY;BYDAY=TU,TH;UNTIL=20240810T075900Z'',
      ''SUMMARY:'' @ escapeICSText (event_summary ?c),
      ''DESCRIPTION:'' @ escapeICSText (event_description ?c),
      ''LOCATION:'' @ escapeICSText (event_location ?c),
      ''END:VEVENT'', ''END:VCALENDAR'']"
  have doc: "ics_header @ ?e @ ics_footer = concat (map (\<lambda>l. l @ CRLF) ?ls)"
    by (simp add: ics_header_def ics_footer_def event_tail_def)
  have nl: "list_all (\<lambda>l. LF \<notin> set l) ?ls"
    using LF_notin_escapeICSText by (simp add: LF_def)
  have "count_vevents (ics_header @ ?e @ ics_footer) = 1"
    unfolding doc count_vevents_def lines_crlf_concat [OF nl] by simp
  then show "count_vevents (ics_header @
        ''BEGIN:VEVENT'' @ CRLF @
        ''DTSTART;TZID=America/Los_Angeles:20240506T123000'' @ CRLF @
        ''DTEND;TZID=America/Los_Angeles:20240506T142000'' @ CRLF @
        ''RRULE:FREQ=WEEKLY;BYDAY=TU,TH;UNTIL=20240810T075900Z'' @ CRLF @
        event_tail ?c @ ics_footer) = 1"
    by simp
  show "formatICSDateTimeUTC ''20240809'' ''23:59'' = ''20240810T075900Z''"
    by (rule formatICSDateTimeUTC_09_AUG)
qed

theorem createEvent_lecture_example_witness:
  "createEvent (\<lambda>s. False) \<lparr>cd_subject = ''CPSC'', cd_course = ''1150'', cd_section = ''001'',
      cd_title = ''Program Design'', cd_type = ''LECTURE'', cd_days = ''-T-R---'', cd_time = ''1230-1420'',
      cd_start = ''06-MAY-2024'', cd_end = ''09-AUG-2024'', cd_room = ''A136''\<rparr> =
   Inr (''BEGIN:VEVENT'' @ CRLF @
        ''DTSTART;TZID=America/Los_Angeles:20240506T123000'' @ CRLF @
        ''DTEND;TZID=America/Los_Angeles:20240506T142000'' @ CRLF @
        ''RRULE:FREQ=WEEKLY;BYDAY=TU,TH;UNTIL=20240810T075900Z'' @ CRLF @
        ''SUMMARY:CPSC 1150 001 LECTURE'' @ CRLF @
        ''DESCRIPTION:Program Design'' @ CRLF @
        ''LOCATION:Langara College'' @ [CHR 0x5C] @ '', Room A136'' @ CRLF @
        ''END:VEVENT'' @ CRLF)"
proof -
  have tail: "event_tail \<lparr>cd_subject = ''CPSC'', cd_course = ''1150'', cd_section = ''001'',
      cd_title = ''Program Design'', cd_type = ''LECTURE'', cd_days = ''-T-R---'', cd_time = ''1230-1420'',
      cd_start = ''06-MAY-2024'', cd_end = ''09-AUG-2024'', cd_room = ''A136''\<rparr> =
        ''SUMMARY:CPSC 1150 001 LECTURE'' @ CRLF @
        ''DESCRIPTION:Program Design'' @ CRLF @
        ''LOCATION:Langara College'' @ [CHR 0x5C] @ '', Room A136'' @ CRLF @
        ''END:VEVENT'' @ CRLF"
    by code_simp
  show ?thesis
    using createEvent_lecture_example [of "\<lambda>s. False" "''CPSC''" "''1150''" "''001''" "''Program Design''" "''A136''"]
    unfolding tail by (elim conjE)
qed

section \<open>Events of sessions that decode and of sessions that do not\<close>

lemma split_on_two_parts: "c \<in> set s \<Longrightarrow> \<exists>h m r. split_on c s = h # m # r"
proof -
  assume "c \<in> set s"
  then have "filter (\<lambda>x. x = c) s \<noteq> []"
    by (simp add: filter_empty_conv)
  then have "2 \<le> length (split_on c s)"
    by (cases "filter (\<lambda>x. x = c) s") (simp_all add: length_split_on)
  then show ?thesis
    by (cases "split_on c s"; cases "tl (split_on c s)") auto
qed

lemma colon_in_formatTime: "CHR '':'' \<in> set (formatTime t)"
  by (simp add: formatTime_def Let_def)

lemma formatICSDateTime_formatTime: "\<exists>x. formatICSDateTime d (formatTime t) = Inr x"
proof -
  obtain h m r where "split_on (CHR '':'') (formatTime t) = h # m # r"
    using split_on_two_parts [OF colon_in_formatTime] by blast
  then show ?thesis by (simp add: formatICSDateTime_def)
qed

lemma parseBannerTime_Some:
  "parseBannerTime s = Some td \<Longrightarrow> \<exists>a b. td_start td = formatTime a \<and> td_end td = formatTime b"
  by (auto simp: parseBannerTime_def split: if_splits list.splits)

lemma parseBannerDate_not_Nil: "parseBannerDate legacy s = Some d \<Longrightarrow> d \<noteq> []"
  by (auto simp: parseBannerDate_def Let_def split: if_splits list.splits option.splits)

lemma index_of_skip:
  "p \<notin> set a \<Longrightarrow>
   index_of (p # pat) (a @ s) = (case index_of (p # pat) s of None \<Rightarrow> None | Some i \<Rightarrow> Some (length a + i))"
  by (induction a) (auto split: option.splits)

lemma str_replace_keeps:
  "p \<notin> set a \<Longrightarrow> \<exists>m. str_replace (a @ s) (p # pat) repl = a @ m"
  by (cases "index_of (p # pat) s") (simp_all add: str_replace_def index_of_skip Let_def)

lemma createEvent_undecodable: "\<not> decodes legacy c \<Longrightarrow> createEvent legacy c = Inr []"
  by (auto simp: decodes_def createEvent_def Let_def split: option.splits)

lemma createEvent_decodes:
  assumes "decodes legacy c"
  shows "\<exists>m. createEvent legacy c = Inr ((''BEGIN:VEVENT'' @ CRLF) @ m @ event_tail c)"
proof -
  obtain sd td where sd: "parseBannerDate legacy (cd_start c) = Some sd"
    and td: "parseBannerTime (cd_time c) = Some td"
    using assms by (auto simp: decodes_def)
  have ne: "sd \<noteq> []" using sd by (rule parseBannerDate_not_Nil)
  obtain a b where ab: "td_start td = formatTime a" "td_end td = formatTime b"
    using parseBannerTime_Some [OF td] by blast
  obtain x1 where x1: "formatICSDateTime sd (td_start td) = Inr x1"
    using formatICSDateTime_formatTime ab by metis
  obtain x2 where x2: "formatICSDateTime sd (td_end td) = Inr x2"
    using formatICSDateTime_formatTime ab by metis
  let ?bv = "''BEGIN:VEVENT'' @ CRLF"
  let ?rest = "''DTSTART;TZID=America/Los_Angeles:'' @ x1 @ CRLF @ ''DTEND;TZID=America/Los_Angeles:'' @ x2 @ CRLF"
  have D: "CHR ''D'' \<notin> set ?bv" by (simp add: CRLF_def CR_def LF_def)
  show ?thesis
  proof (cases "cd_type c = ''EXAM''")
    case False
    then have "createEvent legacy c =
        Inr (?bv @ (?rest @ event_rrule c (parseBannerDate legacy (cd_end c))) @ event_tail c)"
      using sd td ne x1 x2 by (simp add: createEvent_def)
    then show ?thesis by blast
  next
    case True
    show ?thesis
    proof (cases "parseBannerDate legacy (cd_end c)")
      case None
      then have "createEvent legacy c = Inr (?bv @ ?rest @ event_tail c)"
        using sd td ne x1 x2 True by (simp add: createEvent_def)
      then show ?thesis by blast
    next
      case (Some ed)
      show ?thesis
      proof (cases "ed \<noteq> [] \<and> ed \<noteq> sd")
        case False
        then have "createEvent legacy c = Inr (?bv @ ?rest @ event_tail c)"
          using sd td ne x1 x2 True Some by (auto simp add: createEvent_def)
        then show ?thesis by blast
      next
        case yes: True
        obtain x3 where x3: "formatICSDateTime ed (td_end td) = Inr x3"
          using formatICSDateTime_formatTime ab by metis
        define S where "S = str_replace (?bv @ ?rest)
            (CHR ''D'' # ''TEND;TZID=America/Los_Angeles:'' @ x2)
            (''DTEND;TZID=America/Los_Angeles:'' @ x3)"
        obtain m where m: "S = ?bv @ m"
          unfolding S_def using str_replace_keeps [OF D] by blast
        have "createEvent legacy c = Inr (S @ event_tail c)"
          using sd td ne x1 x2 x3 True Some yes by (simp add: createEvent_def S_def)
        then have "createEvent legacy c = Inr ((?bv @ m) @ event_tail c)"
          by (simp only: m)
        then have "createEvent legacy c = Inr (?bv @ m @ event_tail c)"
          by (simp only: append_assoc)
        then show ?thesis by blast
      qed
    qed
  qed
qed

lemma suffix_event_tail: "suffix (''END:VEVENT'' @ CRLF) (x @ event_tail c)"
  by (simp add: event_tail_def suffix_def)

lemma createEvent_decodes_shape:
  assumes "decodes legacy c"
  shows "\<exists>e. createEvent legacy c = Inr e \<and> e \<noteq> [] \<and>
             prefix (''BEGIN:VEVENT'' @ CRLF) e \<and> suffix (''END:VEVENT'' @ CRLF) e"
proof -
  obtain m where m: "createEvent legacy c = Inr ((''BEGIN:VEVENT'' @ CRLF) @ m @ event_tail c)"
    using createEvent_decodes [OF assms] by blast
  have "suffix (''END:VEVENT'' @ CRLF) (((''BEGIN:VEVENT'' @ CRLF) @ m) @ event_tail c)"
    by (rule suffix_event_tail)
  then have "suffix (''END:VEVENT'' @ CRLF) ((''BEGIN:VEVENT'' @ CRLF) @ m @ event_tail c)"
    by (simp only: append_assoc)
  moreover have "prefix (''BEGIN:VEVENT'' @ CRLF) ((''BEGIN:VEVENT'' @ CRLF) @ m @ event_tail c)"
    by (rule prefixI) simp
  moreover have "(''BEGIN:VEVENT'' @ CRLF) @ m @ event_tail c \<noteq> []"
    by simp
  ultimately show ?thesis using m by blast
qed

lemma events_loop_events:
  "\<exists>evs. events_loop legacy cs acc = Inr (acc @ concat evs) \<and>
         map Inr evs = map (createEvent legacy) (filter (decodes legacy) cs) \<and>
         list_all (\<lambda>e. prefix (''BEGIN:VEVENT'' @ CRLF) e \<and> suffix (''END:VEVENT'' @ CRLF) e) evs"
proof (induction cs arbitrary: acc)
  case Nil
  show ?case by simp
next
  case (Cons c cs)
  show ?case
  proof (cases "decodes legacy c")
    case False
    then have "events_loop legacy (c # cs) acc = events_loop legacy cs acc"
      by (simp add: createEvent_undecodable)
    with Cons [of acc] False show ?thesis by simp
  next
    case True
    obtain e where e: "createEvent legacy c = Inr e" "e \<noteq> []"
      "prefix (''BEGIN:VEVENT'' @ CRLF) e" "suffix (''END:VEVENT'' @ CRLF) e"
      using createEvent_decodes_shape [OF True] by blast
    obtain evs where evs: "events_loop legacy cs (acc @ e) = Inr ((acc @ e) @ concat evs)"
      "map Inr evs = map (createEvent legacy) (filter (decodes legacy) cs)"
      "list_all (\<lambda>e. prefix (''BEGIN:VEVENT'' @ CRLF) e \<and> suffix (''END:VEVENT'' @ CRLF) e) evs"
      using Cons [of "acc @ e"] by blast
    have "events_loop legacy (c # cs) acc = Inr (acc @ concat (e # evs))"
      using e evs(1) by simp
    moreover have "map Inr (e # evs) = map (createEvent legacy) (filter (decodes legacy) (c # cs))"
      using True e(1) evs(2) by simp
    moreover have "list_all (\<lambda>e. prefix (''BEGIN:VEVENT'' @ CRLF) e \<and> suffix (''END:VEVENT'' @ CRLF) e) (e # evs)"
      using e(3,4) evs(3) by simp
    ultimately show ?thesis by blast
  qed
qed

lemma events_loop_append:
  "events_loop legacy (xs @ ys) acc =
     (case events_loop legacy xs acc of Inl e \<Rightarrow> Inl e | Inr a \<Rightarrow> events_loop legacy ys a)"
  by (induction xs arbitrary: acc) (auto split: sum.splits)

lemma generateICS_drop_undecodable:
  assumes "\<not> decodes legacy c"
  shows "generateICS legacy (xs @ c # ys) = generateICS legacy (xs @ ys)"
proof -
  have "events_loop legacy (c # ys) a = events_loop legacy ys a" for a
    using assms by (simp add: createEvent_undecodable)
  then show ?thesis
    by (simp add: generateICS_def events_loop_append split: sum.splits)
qed

text \<open>
  C5: \<open>generateICS\<close> never fails. Its document is the header, the events of the sessions
  whose start date and time range decode, in order, each the block \<open>createEvent\<close> returns
  for it from \<open>BEGIN:VEVENT\<close> to \<open>END:VEVENT\<close>, and the footer. A session whose start date or
  time range does not decode gives the empty event, and the document is the one
  generated without that session.
\<close>

theorem generateICS_skips_undecodable:
  "(\<exists>evs. generateICS legacy cs = Inr (ics_header @ concat evs @ ics_footer) \<and>
       map Inr evs = map (createEvent legacy) (filter (decodes legacy) cs) \<and>
       list_all (\<lambda>e. prefix (''BEGIN:VEVENT'' @ CRLF) e \<and> suffix (''END:VEVENT'' @ CRLF) e) evs) \<and>
   (\<not> decodes legacy c \<longrightarrow>
      createEvent legacy c = Inr [] \<and>
      generateICS legacy (xs @ c # ys) = generateICS legacy (xs @ ys))"
proof (intro conjI impI)
  obtain evs where evs: "events_loop legacy cs ics_header = Inr (ics_header @ concat evs)"
    "map Inr evs = map (createEvent legacy) (filter (decodes legacy) cs)"
    "list_all (\<lambda>e. prefix (''BEGIN:VEVENT'' @ CRLF) e \<and> suffix (''END:VEVENT'' @ CRLF) e) evs"
    using events_loop_events [of legacy cs ics_header] by blast
  have "generateICS legacy cs = Inr (ics_header @ concat evs @ ics_footer)"
    by (simp add: generateICS_def evs(1))
  with evs(2,3) show "\<exists>evs. generateICS legacy cs = Inr (ics_header @ concat evs @ ics_footer) \<and>
       map Inr evs = map (createEvent legacy) (filter (decodes legacy) cs) \<and>
       list_all (\<lambda>e. prefix (''BEGIN:VEVENT'' @ CRLF) e \<and> suffix (''END:VEVENT'' @ CRLF) e) evs"
    by blast
next
  assume "\<not> decodes legacy c"
  then show "createEvent legacy c = Inr []"
    by (rule createEvent_undecodable)
next
  assume "\<not> decodes legacy c"
  then show "generateICS legacy (xs @ c # ys) = generateICS legacy (xs @ ys)"
    by (rule generateICS_drop_undecodable)
qed

theorem generateICS_skips_undecodable_witness:
  "\<not> decodes (\<lambda>s. False)
      \<lparr>cd_subject = ''CPSC'', cd_course = ''1150'', cd_section = ''001'', cd_title = ''Program Design'',
       cd_type = ''LAB'', cd_days = ''--W----'', cd_time = ''TBA'', cd_start = ''06-MAY-2024'',
       cd_end = ''09-AUG-2024'', cd_room = ''B019''\<rparr> \<and>
   createEvent (\<lambda>s. False)
      \<lparr>cd_subject = ''CPSC'', cd_course = ''1150'', cd_section = ''001'', cd_title = ''Program Design'',
       cd_type = ''LAB'', cd_days = ''--W----'', cd_time = ''TBA'', cd_start = ''06-MAY-2024'',
       cd_end = ''09-AUG-2024'', cd_room = ''B019''\<rparr> = Inr [] \<and>
   generateICS (\<lambda>s. False)
     [\<lparr>cd_subject = ''CPSC'', cd_course = ''1150'', cd_section = ''001'', cd_title = ''Program Design'',
       cd_type = ''LECTURE'', cd_days = ''-T-R---'', cd_time = ''1230-1420'', cd_start = ''06-MAY-2024'',
       cd_end = ''09-AUG-2024'', cd_room = ''A136''\<rparr>,
      \<lparr>cd_subject = ''CPSC'', cd_course = ''1150'', cd_section = ''001'', cd_title = ''Program Design'',
       cd_type = ''LAB'', cd_days = ''--W----'', cd_time = ''TBA'', cd_start = ''06-MAY-2024'',
       cd_end = ''09-AUG-2024'', cd_room = ''B019''\<rparr>] =
   generateICS (\<lambda>s. False)
     [\<lparr>cd_subject = ''CPSC'', cd_course = ''1150'', cd_section = ''001'', cd_title = ''Program Design'',
       cd_type = ''LECTURE'', cd_days = ''-T-R---'', cd_time = ''1230-1420'', cd_start = ''06-MAY-2024'',
       cd_end = ''09-AUG-2024'', cd_room = ''A136''\<rparr>]"
proof -
  let ?bad = "\<lparr>cd_subject = ''CPSC'', cd_course = ''1150'', cd_section = ''001'', cd_title = ''Program Design'',
       cd_type = ''LAB'', cd_days = ''--W----'', cd_time = ''TBA'', cd_start = ''06-MAY-2024'',
       cd_end = ''09-AUG-2024'', cd_room = ''B019''\<rparr>"
  let ?good = "\<lparr>cd_subject = ''CPSC'', cd_course = ''1150'', cd_section = ''001'', cd_title = ''Program Design'',
       cd_type = ''LECTURE'', cd_days = ''-T-R---'', cd_time = ''1230-1420'', cd_start = ''06-MAY-2024'',
       cd_end = ''09-AUG-2024'', cd_room = ''A136''\<rparr>"
  have nd: "\<not> decodes (\<lambda>s. False) ?bad"
    by code_simp
  from generateICS_skips_undecodable [of "\<lambda>s. False" "[]" ?bad "[?good]" "[]"] nd
  show ?thesis by simp
qed

section \<open>The row parser\<close>

lemma all_dropWhile_iff: "(\<forall>x \<in> set (dropWhile P xs). P x) \<longleftrightarrow> (\<forall>x \<in> set xs. P x)"
  by (induction xs) auto

lemma trim_Nil_iff: "trim s = [] \<longleftrightarrow> (\<forall>c \<in> set s. js_whitespace c)"
  by (simp add: trim_def dropWhile_eq_Nil_conv all_dropWhile_iff)

lemma toUpperCase_all_space:
  "(\<forall>u \<in> set (toUpperCase s). js_whitespace u) \<longleftrightarrow> (\<forall>c \<in> set s. js_whitespace c)"
proof
  assume l: "\<forall>u \<in> set (toUpperCase s). js_whitespace u"
  show "\<forall>c \<in> set s. js_whitespace c"
  proof
    fix c assume c: "c \<in> set s"
    obtain u where u: "u \<in> set (toUpperChar c)"
      using toUpperChar_not_Nil [of c] by (cases "toUpperChar c") auto
    then have "u \<in> set (toUpperCase s)"
      using c by (auto simp: toUpperCase_def)
    then show "js_whitespace c"
      using l toUpperChar_space [OF u] by simp
  qed
next
  assume "\<forall>c \<in> set s. js_whitespace c"
  then show "\<forall>u \<in> set (toUpperCase s). js_whitespace u"
    using toUpperChar_space by (auto simp: toUpperCase_def)
qed

lemma trim_toUpperCase_Nil_iff: "trim (toUpperCase s) = [] \<longleftrightarrow> trim s = []"
  by (simp only: trim_Nil_iff toUpperCase_all_space)

lemma trim_Nil: "trim [] = []"
  by (simp add: trim_def)

lemma parseTableRow_no_record:
  assumes "length (tds r) < 3 \<or> trim (row_type t (tds r)) = [] \<or>
     (row_start t (tds r) = [] \<and> row_time t (tds r) = [])"
  shows "parseTableRow r t ctx = None"
proof (cases "length (tds r) < 3")
  case True
  then show ?thesis
    unfolding parseTableRow_def Let_def by (simp split del: if_split)
next
  case n: False
  show ?thesis
  proof (cases "trim (row_type t (tds r)) = []")
    case True
    with n show ?thesis
      unfolding parseTableRow_def Let_def by (simp split del: if_split)
  next
    case False
    with n assms have st: "(row_start t (tds r) = [] \<and> row_time t (tds r) = []) = True"
      by blast
    have "row_type t (tds r) \<noteq> []"
      using False trim_Nil by auto
    with n False show ?thesis
      unfolding parseTableRow_def Let_def by (simp add: st split del: if_split)
  qed
qed

lemma parseTableRow_record:
  assumes n: "\<not> length (tds r) < 3" and ty: "trim (row_type t (tds r)) \<noteq> []"
    and st: "\<not> (row_start t (tds r) = [] \<and> row_time t (tds r) = [])"
  shows "\<exists>cd. parseTableRow r t ctx = Some cd \<and>
     cd_type cd = trim (toUpperCase (row_type t (tds r))) \<and>
     cd_start cd = row_start t (tds r) \<and> cd_time cd = row_time t (tds r) \<and>
     cd_end cd = row_end t (tds r) \<and> cd_days cd = row_days t (tds r)"
proof -
  have ty': "row_type t (tds r) \<noteq> []"
    using ty trim_Nil by auto
  have st': "(row_start t (tds r) = [] \<and> row_time t (tds r) = []) = False"
    using st by blast
  show ?thesis
    unfolding parseTableRow_def Let_def
    using n ty ty' by (simp add: st' split del: if_split)
qed

lemma parseTableRow_None_iff:
  "parseTableRow r t ctx = None \<longleftrightarrow>
     length (tds r) < 3 \<or> trim (row_type t (tds r)) = [] \<or>
     (row_start t (tds r) = [] \<and> row_time t (tds r) = [])"
  using parseTableRow_no_record [of r t ctx] parseTableRow_record [of r t ctx]
  by (cases "parseTableRow r t ctx") auto

lemma parseTableRow_Some_fields:
  "parseTableRow r t ctx = Some cd \<Longrightarrow>
     cd_type cd = trim (toUpperCase (row_type t (tds r))) \<and>
     cd_start cd = row_start t (tds r) \<and> cd_time cd = row_time t (tds r) \<and>
     cd_end cd = row_end t (tds r) \<and> cd_days cd = row_days t (tds r)"
  using parseTableRow_no_record [of r t ctx] parseTableRow_record [of r t ctx]
  by auto

lemma parseTableRow_None_ctx:
  "(parseTableRow r t ctx = None) = (parseTableRow r t ctx' = None)"
  by (simp add: parseTableRow_None_iff)

text \<open>A cell that holds only a no-break space, as the empty cells of the page do, is empty
  once trimmed: a row whose Type cell is such a cell gives no record.\<close>

lemma parseTableRow_nbsp_type:
  "parseTableRow [TD ''CPSC'', TD [CHR 0xA0], TD ''0830-1020'']
     [[TH ''Subj'', TH ''Type'', TH ''Time'']] ctx = None"
  by (rule parseTableRow_no_record) code_simp

text \<open>
  C4: for every row, table and carried-over course identity, \<open>parseTableRow\<close> returns a
  record only when the type it extracted is not empty and the start date or the time
  range is present; the record then holds that type, upper-cased, and that start date
  and time range. It returns null exactly when the row has fewer than three data cells,
  or the type is missing, or the start date and the time range are both missing.
\<close>

theorem parseTableRow_record_only_when:
  "(\<forall>cd. parseTableRow r t ctx = Some cd \<longrightarrow>
      cd_type cd \<noteq> [] \<and> (cd_start cd \<noteq> [] \<or> cd_time cd \<noteq> []) \<and>
      trim (row_type t (tds r)) \<noteq> [] \<and> cd_type cd = trim (toUpperCase (row_type t (tds r))) \<and>
      cd_start cd = row_start t (tds r) \<and> cd_time cd = row_time t (tds r)) \<and>
   ((parseTableRow r t ctx = None) =
      (length (tds r) < 3 \<or> trim (row_type t (tds r)) = [] \<or>
       (row_start t (tds r) = [] \<and> row_time t (tds r) = [])))"
proof (intro conjI allI impI)
  fix cd
  assume some: "parseTableRow r t ctx = Some cd"
  then have nn: "\<not> (length (tds r) < 3 \<or> trim (row_type t (tds r)) = [] \<or>
     (row_start t (tds r) = [] \<and> row_time t (tds r) = []))"
    using parseTableRow_None_iff [of r t ctx] by simp
  note f = parseTableRow_Some_fields [OF some]
  show "trim (row_type t (tds r)) \<noteq> []" using nn by simp
  then show "cd_type cd \<noteq> []" using f by (simp add: trim_toUpperCase_Nil_iff)
  show "cd_start cd \<noteq> [] \<or> cd_time cd \<noteq> []" using nn f by auto
  show "cd_type cd = trim (toUpperCase (row_type t (tds r)))" using f by simp
  show "cd_start cd = row_start t (tds r)" using f by simp
  show "cd_time cd = row_time t (tds r)" using f by simp
next
  show "(parseTableRow r t ctx = None) =
      (length (tds r) < 3 \<or> trim (row_type t (tds r)) = [] \<or>
       (row_start t (tds r) = [] \<and> row_time t (tds r) = []))"
    by (rule parseTableRow_None_iff)
qed

theorem parseTableRow_record_only_when_witness:
  "parseTableRow [TD ''10234'', TD ''CPSC'', TD ''1150'', TD ''Lab'', TD ''0830-1020''] [[TH ''CRN'', TH ''Subj'']]
      \<lparr>ci_subject = [], ci_course = [], ci_section = [], ci_title = []\<rparr> =
     Some \<lparr>cd_subject = ''CPSC'', cd_course = ''1150'', cd_section = ''Lab'', cd_title = ''CPSC 1150 Lab'',
           cd_type = ''LAB'', cd_days = [], cd_time = ''0830-1020'', cd_start = [], cd_end = [], cd_room = []\<rparr> \<and>
   ''LAB'' \<noteq> [] \<and> ''0830-1020'' \<noteq> [] \<and>
   row_type [[TH ''CRN'', TH ''Subj'']] (tds [TD ''10234'', TD ''CPSC'', TD ''1150'', TD ''0830-1020'']) = [] \<and>
   parseTableRow [TD ''10234'', TD ''CPSC'', TD ''1150'', TD ''0830-1020''] [[TH ''CRN'', TH ''Subj'']]
      \<lparr>ci_subject = [], ci_course = [], ci_section = [], ci_title = []\<rparr> = None"
proof -
  have a: "parseTableRow [TD ''10234'', TD ''CPSC'', TD ''1150'', TD ''Lab'', TD ''0830-1020''] [[TH ''CRN'', TH ''Subj'']]
      \<lparr>ci_subject = [], ci_course = [], ci_section = [], ci_title = []\<rparr> =
     Some \<lparr>cd_subject = ''CPSC'', cd_course = ''1150'', cd_section = ''Lab'', cd_title = ''CPSC 1150 Lab'',
           cd_type = ''LAB'', cd_days = [], cd_time = ''0830-1020'', cd_start = [], cd_end = [], cd_room = []\<rparr>"
    by code_simp
  have b: "row_type [[TH ''CRN'', TH ''Subj'']] (tds [TD ''10234'', TD ''CPSC'', TD ''1150'', TD ''0830-1020'']) = []"
    by code_simp
  have "parseTableRow [TD ''10234'', TD ''CPSC'', TD ''1150'', TD ''0830-1020''] [[TH ''CRN'', TH ''Subj'']]
      \<lparr>ci_subject = [], ci_course = [], ci_section = [], ci_title = []\<rparr> = None"
    using parseTableRow_record_only_when [of "[TD ''10234'', TD ''CPSC'', TD ''1150'', TD ''0830-1020'']"
        "[[TH ''CRN'', TH ''Subj'']]" "\<lparr>ci_subject = [], ci_course = [], ci_section = [], ci_title = []\<rparr>"] b
    by (simp add: trim_Nil)
  with a b show ?thesis by simp
qed

section \<open>The aggregator's counters\<close>

lemma scrape_row_skip:
  "length (tds r) < 3 \<Longrightarrow> scrape_row t st r = st\<lparr>skippedRows := skippedRows st + 1\<rparr>"
  by (simp add: scrape_row_def)

lemma parseTableRow_Some_cond:
  "parseTableRow r t ctx = Some cd \<Longrightarrow>
     \<not> (length (tds r) < 3 \<or> trim (row_type t (tds r)) = [] \<or>
        (row_start t (tds r) = [] \<and> row_time t (tds r) = []))"
  using parseTableRow_None_iff [of r t ctx] by simp

lemma scrape_row_parsed:
  assumes "\<not> length (tds r) < 3"
  shows "parserCalls (scrape_row t st r) = parserCalls st @ [r] \<and>
         skippedRows (scrape_row t st r) = skippedRows st \<and>
         invalidRows (scrape_row t st r) =
           invalidRows st + (if parseTableRow r t ctx = None then 1 else 0)"
  using assms
  by (auto simp: scrape_row_def Let_def parseTableRow_None_iff split: option.splits
      dest: parseTableRow_Some_cond)

lemma scrape_fold:
  "skippedRows (foldl (scrape_row t) st rs) =
     skippedRows st + length (filter (\<lambda>r. length (tds r) < 3) rs) \<and>
   parserCalls (foldl (scrape_row t) st rs) =
     parserCalls st @ filter (\<lambda>r. \<not> length (tds r) < 3) rs \<and>
   invalidRows (foldl (scrape_row t) st rs) =
     invalidRows st +
     length (filter (\<lambda>r. parseTableRow r t ctx = None) (filter (\<lambda>r. \<not> length (tds r) < 3) rs))"
proof (induction rs arbitrary: st)
  case Nil
  show ?case by simp
next
  case (Cons r rs)
  show ?case
  proof (cases "length (tds r) < 3")
    case True
    then show ?thesis
      using Cons [of "scrape_row t st r"] by (simp add: scrape_row_skip)
  next
    case False
    then show ?thesis
      using Cons [of "scrape_row t st r"] scrape_row_parsed [OF False, of t st ctx] by simp
  qed
qed

text \<open>
  C6: in the loop of \<open>scrapeCourseData\<close>, a row after the leading header rows with fewer
  than three data cells only adds one to the counter of skipped rows: it is not handed
  to \<open>parseTableRow\<close> and the counter of invalid rows stays. Any other row is handed to
  \<open>parseTableRow\<close>, leaves the counter of skipped rows alone, and adds one to the counter
  of invalid rows exactly when \<open>parseTableRow\<close> returns null for it. At the end of the
  loop the skipped rows are the short rows, the rows that reached \<open>parseTableRow\<close> are
  the others, and the invalid rows are those of them for which it returned null.
\<close>

theorem scrape_counters:
  "(length (tds r) < 3 \<longrightarrow> scrape_row t st r = st\<lparr>skippedRows := skippedRows st + 1\<rparr>) \<and>
   (\<not> length (tds r) < 3 \<longrightarrow>
      parserCalls (scrape_row t st r) = parserCalls st @ [r] \<and>
      skippedRows (scrape_row t st r) = skippedRows st \<and>
      invalidRows (scrape_row t st r) =
        invalidRows st + (if parseTableRow r t ctx = None then 1 else 0)) \<and>
   skippedRows (scrape_loop t) =
     length (filter (\<lambda>r. length (tds r) < 3) (drop (headerRowCount t) t)) \<and>
   parserCalls (scrape_loop t) =
     filter (\<lambda>r. \<not> length (tds r) < 3) (drop (headerRowCount t) t) \<and>
   invalidRows (scrape_loop t) =
     length (filter (\<lambda>r. parseTableRow r t ctx = None) (parserCalls (scrape_loop t)))"
proof (intro conjI impI)
  assume "length (tds r) < 3"
  then show "scrape_row t st r = st\<lparr>skippedRows := skippedRows st + 1\<rparr>"
    by (rule scrape_row_skip)
next
  assume n: "\<not> length (tds r) < 3"
  note p = scrape_row_parsed [OF n, of t st ctx]
  show "parserCalls (scrape_row t st r) = parserCalls st @ [r]" using p by simp
  show "skippedRows (scrape_row t st r) = skippedRows st" using p by simp
  show "invalidRows (scrape_row t st r) =
        invalidRows st + (if parseTableRow r t ctx = None then 1 else 0)" using p by simp
next
  note f = scrape_fold [of t scrape_init "drop (headerRowCount t) t" ctx]
  show "skippedRows (scrape_loop t) =
     length (filter (\<lambda>r. length (tds r) < 3) (drop (headerRowCount t) t))"
    using f by (simp add: scrape_loop_def scrape_init_def)
  show pc: "parserCalls (scrape_loop t) =
     filter (\<lambda>r. \<not> length (tds r) < 3) (drop (headerRowCount t) t)"
    using f by (simp add: scrape_loop_def scrape_init_def)
  show "invalidRows (scrape_loop t) =
     length (filter (\<lambda>r. parseTableRow r t ctx = None) (parserCalls (scrape_loop t)))"
    unfolding pc using f by (simp add: scrape_loop_def scrape_init_def)
qed

theorem scrape_counters_witness:
  "length (tds [TD []]) < 3 \<and>
   scrape_row [[TH ''Subj'', TH ''Type''], [TD []], [TD ''a'', TD ''b'', TD ''c''],
               [TD ''CPSC'', TD ''LAB'', TD ''0830-1020'']] scrape_init [TD []] =
     scrape_init\<lparr>skippedRows := skippedRows scrape_init + 1\<rparr> \<and>
   skippedRows (scrape_loop [[TH ''Subj'', TH ''Type''], [TD []], [TD ''a'', TD ''b'', TD ''c''],
                             [TD ''CPSC'', TD ''LAB'', TD ''0830-1020'']]) = 1 \<and>
   parserCalls (scrape_loop [[TH ''Subj'', TH ''Type''], [TD []], [TD ''a'', TD ''b'', TD ''c''],
                             [TD ''CPSC'', TD ''LAB'', TD ''0830-1020'']]) =
     [[TD ''a'', TD ''b'', TD ''c''], [TD ''CPSC'', TD ''LAB'', TD ''0830-1020'']] \<and>
   invalidRows (scrape_loop [[TH ''Subj'', TH ''Type''], [TD []], [TD ''a'', TD ''b'', TD ''c''],
                             [TD ''CPSC'', TD ''LAB'', TD ''0830-1020'']]) = 1"
proof -
  let ?t = "[[TH ''Subj'', TH ''Type''], [TD []], [TD ''a'', TD ''b'', TD ''c''],
             [TD ''CPSC'', TD ''LAB'', TD ''0830-1020'']]"
  have short: "length (tds [TD []]) < 3"
    by simp
  have rows: "drop (headerRowCount ?t) ?t =
      [[TD []], [TD ''a'', TD ''b'', TD ''c''], [TD ''CPSC'', TD ''LAB'', TD ''0830-1020'']]"
    by (simp add: headerRowCount_def has_th_def)
  have p1: "parseTableRow [TD ''a'', TD ''b'', TD ''c''] ?t
      \<lparr>ci_subject = [], ci_course = [], ci_section = [], ci_title = []\<rparr> = None"
    by code_simp
  have p2: "parseTableRow [TD ''CPSC'', TD ''LAB'', TD ''0830-1020''] ?t
      \<lparr>ci_subject = [], ci_course = [], ci_section = [], ci_title = []\<rparr> \<noteq> None"
    by code_simp
  from scrape_counters [of "[TD []]" ?t scrape_init
      "\<lparr>ci_subject = [], ci_course = [], ci_section = [], ci_title = []\<rparr>"]
  show ?thesis
    using short by (simp add: rows p1 p2)
qed

section \<open>The column resolver\<close>

lemma find_header_shift:
  "find_header up hs (Suc i) = map_option Suc (find_header up hs i)"
  by (induction hs arbitrary: i) auto

lemma upt_Suc_Cons: "[0..<Suc n] = 0 # map Suc [0..<n]"
  by (simp add: upt_conv_Cons map_Suc_upt del: upt_Suc)

lemma find_header_filter:
  "find_header up hs 0 =
     (case filter (\<lambda>i. str_includes (toUpperCase (trim (hs ! i))) up) [0..<length hs] of
        [] \<Rightarrow> None
      | i # _ \<Rightarrow> Some i)"
proof (induction hs)
  case Nil
  show ?case by simp
next
  case (Cons h hs)
  have "filter (\<lambda>i. str_includes (toUpperCase (trim ((h # hs) ! i))) up) [0..<length (h # hs)] =
        (if str_includes (toUpperCase (trim h)) up then [0] else []) @
        map Suc (filter (\<lambda>i. str_includes (toUpperCase (trim (hs ! i))) up) [0..<length hs])"
    by (simp add: upt_Suc_Cons filter_map comp_def del: upt_Suc)
  then show ?case
    using Cons by (simp add: find_header_shift split: list.splits del: upt_Suc)
qed

lemma find_header_first_match: "find_header (toUpperCase field) (ths r) 0 = first_match field r"
  by (simp add: find_header_filter first_match_def header_matches_def)

lemma header_rows_loop_leading:
  "header_rows_loop (toUpperCase field) t =
     (case List.map_filter (first_match field) (takeWhile has_th t) of
        [] \<Rightarrow> - 1
      | i # _ \<Rightarrow> int i)"
  by (induction t)
     (auto simp: has_th_def find_header_first_match split: option.splits)

lemma getColumnIndex_resolve: "getColumnIndex t field = resolve_column t field"
  by (simp add: getColumnIndex_def resolve_column_def Let_def header_rows_loop_leading
      find_header_first_match cong: option.case_cong)

lemma first_match_None_iff:
  "first_match field r = None \<longleftrightarrow> \<not> list_ex (header_matches field) (ths r)"
proof -
  have "first_match field r = None \<longleftrightarrow>
        filter (\<lambda>i. header_matches field (ths r ! i)) [0..<length (ths r)] = []"
    by (cases "filter (\<lambda>i. header_matches field (ths r ! i)) [0..<length (ths r)]")
       (simp_all add: first_match_def)
  also have "\<dots> \<longleftrightarrow> (\<forall>i < length (ths r). \<not> header_matches field (ths r ! i))"
    by (auto simp: filter_empty_conv)
  also have "\<dots> \<longleftrightarrow> \<not> list_ex (header_matches field) (ths r)"
    by (metis in_set_conv_nth list_ex_iff)
  finally show ?thesis .
qed

lemma map_filter_Nil_iff: "List.map_filter f xs = [] \<longleftrightarrow> (\<forall>x \<in> set xs. f x = None)"
  by (induction xs) (auto split: option.splits)

lemma resolve_column_not_found_iff:
  "resolve_column t field = - 1 \<longleftrightarrow>
     (case find has_th t of None \<Rightarrow> None | Some r \<Rightarrow> first_match field r) = None \<and>
     List.map_filter (first_match field) (takeWhile has_th t) = []"
  by (simp add: resolve_column_def split: option.splits list.splits)

lemma leading_not_found_iff:
  "List.map_filter (first_match field) (takeWhile has_th t) = [] \<longleftrightarrow>
     \<not> list_ex (header_matches field) (concat (map ths (takeWhile has_th t)))"
  by (auto simp: map_filter_Nil_iff first_match_None_iff list_ex_iff)

lemma getColumnIndex_not_found_iff:
  "getColumnIndex t field = - 1 \<longleftrightarrow> \<not> list_ex (header_matches field) (checked_headers t)"
proof (cases "find has_th t")
  case None
  then show ?thesis
    by (simp add: getColumnIndex_resolve resolve_column_not_found_iff leading_not_found_iff
        checked_headers_def)
next
  case (Some r)
  then show ?thesis
    by (simp add: getColumnIndex_resolve resolve_column_not_found_iff leading_not_found_iff
        checked_headers_def first_match_None_iff)
qed

text \<open>The second pass starts at the top of the table: when the first row has no header
  cells it looks at no row, and only the first row with header cells is searched.\<close>

lemma getColumnIndex_leading_data_row:
  "getColumnIndex [[TD ''Registered Courses''], [TH ''CRN''], [TH ''Start'', TH ''Type'']] ''Type'' = - 1 \<and>
   getColumnIndex [[TH ''CRN''], [TH ''Start'', TH ''Type'']] ''Type'' = 1"
  by code_simp

text \<open>A field name without white space is contained in the trimmed text of a header cell
  exactly when it is contained in the text as it stands.\<close>

lemma sublist_dropWhile:
  assumes "sublist p s" "p \<noteq> []" "\<not> P (hd p)"
  shows "sublist p (dropWhile P s)"
proof -
  obtain ps ss where s: "s = ps @ p @ ss"
    using assms(1) by (auto simp: sublist_def)
  show ?thesis
  proof (cases "\<forall>x \<in> set ps. P x")
    case True
    then have "dropWhile P s = dropWhile P (p @ ss)"
      by (simp add: s)
    also have "\<dots> = p @ ss"
      using assms(2,3) by (cases p) auto
    finally show ?thesis by simp
  next
    case False
    then have "dropWhile P s = dropWhile P ps @ p @ ss"
      by (auto simp: s)
    then show ?thesis by simp
  qed
qed

lemma sublist_of_dropWhile: "sublist p (dropWhile P s) \<Longrightarrow> sublist p s"
proof -
  assume "sublist p (dropWhile P s)"
  then obtain ps ss where "dropWhile P s = ps @ p @ ss"
    by (auto simp: sublist_def)
  then have "s = (takeWhile P s @ ps) @ p @ ss"
    using takeWhile_dropWhile_id [of P s] by simp
  then show ?thesis
    unfolding sublist_def by blast
qed

lemma sublist_trim:
  assumes "list_all (\<lambda>c. \<not> js_whitespace c) p"
  shows "sublist p (trim s) = sublist p s"
proof (cases "p = []")
  case True
  then show ?thesis by simp
next
  case False
  then have h: "\<not> js_whitespace (hd p)" "\<not> js_whitespace (hd (rev p))" "rev p \<noteq> []"
    using assms by (auto simp: list_all_iff hd_rev)
  show ?thesis
  proof
    assume "sublist p (trim s)"
    then have "sublist (rev p) (dropWhile js_whitespace (rev (dropWhile js_whitespace s)))"
      by (simp add: trim_def sublist_rev_right)
    then have "sublist (rev p) (rev (dropWhile js_whitespace s))"
      by (rule sublist_of_dropWhile)
    then have "sublist p (dropWhile js_whitespace s)"
      by simp
    then show "sublist p s"
      by (rule sublist_of_dropWhile)
  next
    assume "sublist p s"
    then have "sublist p (dropWhile js_whitespace s)"
      using False h(1) by (rule sublist_dropWhile)
    then have "sublist (rev p) (rev (dropWhile js_whitespace s))"
      by simp
    then have "sublist (rev p) (dropWhile js_whitespace (rev (dropWhile js_whitespace s)))"
      using h(3,2) by (rule sublist_dropWhile)
    then show "sublist p (trim s)"
      by (simp add: trim_def sublist_rev_right)
  qed
qed

lemma dropWhile_concat_map:
  assumes ne: "\<And>c. f c \<noteq> []" and pr: "\<And>c u. u \<in> set (f c) \<Longrightarrow> P u = P c"
  shows "dropWhile P (concat (map f s)) = concat (map f (dropWhile P s))"
proof (induction s)
  case Nil
  show ?case by simp
next
  case (Cons c s)
  show ?case
  proof (cases "P c")
    case True
    then have "\<And>u. u \<in> set (f c) \<Longrightarrow> P u"
      using pr by simp
    then have "dropWhile P (f c @ concat (map f s)) = dropWhile P (concat (map f s))"
      by (rule dropWhile_append2)
    with True Cons show ?thesis by simp
  next
    case False
    obtain u r where fc: "f c = u # r"
      using ne [of c] by (cases "f c") auto
    then have "\<not> P u"
      using False pr [of u c] by simp
    with False fc show ?thesis by simp
  qed
qed

lemma trim_toUpperCase: "trim (toUpperCase s) = toUpperCase (trim s)"
proof -
  have a: "dropWhile js_whitespace (concat (map toUpperChar s)) =
           concat (map toUpperChar (dropWhile js_whitespace s))"
    by (rule dropWhile_concat_map) (simp_all add: toUpperChar_not_Nil toUpperChar_space)
  have b: "dropWhile js_whitespace (concat (map (\<lambda>c. rev (toUpperChar c)) t)) =
           concat (map (\<lambda>c. rev (toUpperChar c)) (dropWhile js_whitespace t))" for t
    by (rule dropWhile_concat_map) (simp_all add: toUpperChar_not_Nil toUpperChar_space)
  show ?thesis
    by (simp add: trim_def toUpperCase_def a rev_concat rev_map comp_def b)
qed

lemma header_matches_raw:
  assumes "list_all (\<lambda>c. \<not> js_whitespace c) field"
  shows "header_matches field h = str_includes (toUpperCase h) (toUpperCase field)"
proof -
  have "list_all (\<lambda>c. \<not> js_whitespace c) (toUpperCase field)"
    using assms toUpperChar_space by (auto simp: toUpperCase_def list_all_iff)
  then have "sublist (toUpperCase field) (trim (toUpperCase h)) =
             sublist (toUpperCase field) (toUpperCase h)"
    by (rule sublist_trim)
  then show ?thesis
    by (simp add: header_matches_def str_includes_sublist trim_toUpperCase)
qed

text \<open>
  C8: for every table and field name, \<open>getColumnIndex\<close> is the resolution of the
  specification: the index of the first matching header cell of the first row that has
  header cells; failing that, the index of the first matching header cell in the rows
  from the top down to the first row without header cells; and -1 exactly when none of
  the header cells looked at contains the field name, case ignored. The script trims the
  text of a header cell first, which changes nothing for a field name without white
  space.
\<close>

theorem getColumnIndex_resolution:
  "getColumnIndex t field = resolve_column t field \<and>
   ((getColumnIndex t field = - 1) = (\<not> list_ex (header_matches field) (checked_headers t))) \<and>
   (list_all (\<lambda>c. \<not> js_whitespace c) field \<longrightarrow>
      (\<forall>h. header_matches field h = str_includes (toUpperCase h) (toUpperCase field)))"
  using getColumnIndex_resolve getColumnIndex_not_found_iff header_matches_raw by simp

theorem getColumnIndex_resolution_witness:
  "getColumnIndex [[TH ''CRN'', TH ''Subj''], [TH [], TH [], TH '' Type ''], [TD ''1'', TD ''2'', TD ''3'']] ''type'' = 2 \<and>
   resolve_column [[TH ''CRN'', TH ''Subj''], [TH [], TH [], TH '' Type ''], [TD ''1'', TD ''2'', TD ''3'']] ''type'' = 2 \<and>
   getColumnIndex [[TH ''CRN'', TH ''Subj''], [TH [], TH [], TH '' Type ''], [TD ''1'', TD ''2'', TD ''3'']] ''Room'' = - 1 \<and>
   \<not> list_ex (header_matches ''Room'')
      (checked_headers [[TH ''CRN'', TH ''Subj''], [TH [], TH [], TH '' Type ''], [TD ''1'', TD ''2'', TD ''3'']]) \<and>
   list_all (\<lambda>c. \<not> js_whitespace c) ''type'' \<and>
   header_matches ''type'' '' Type '' = str_includes (toUpperCase '' Type '') (toUpperCase ''type'')"
proof -
  let ?t = "[[TH ''CRN'', TH ''Subj''], [TH [], TH [], TH '' Type ''], [TD ''1'', TD ''2'', TD ''3'']]"
  have a: "resolve_column ?t ''type'' = 2" by code_simp
  have b: "\<not> list_ex (header_matches ''Room'') (checked_headers ?t)" by code_simp
  have c: "list_all (\<lambda>c. \<not> js_whitespace c) ''type''" by code_simp
  from getColumnIndex_resolution [of ?t "''type''"] c
  have d: "header_matches ''type'' '' Type '' = str_includes (toUpperCase '' Type '') (toUpperCase ''type'')"
    by blast
  from getColumnIndex_resolution [of ?t "''type''"] getColumnIndex_resolution [of ?t "''Room''"] a b c d
  show ?thesis by simp
qed

end
